theory Spec2Isabelle
  imports Main "HOL-Library.Word" "HOL-Library.Sublist"
begin

section \<open>Patch coverage: the correlation engine of go-patch-cover\<close>

text \<open>
  A shallow embedding of \<^verbatim>\<open>cover.go\<close> (package \<^verbatim>\<open>patchcover\<close>):
  \<^verbatim>\<open>computeCoverage\<close>, \<^verbatim>\<open>printUncoveredLines\<close>, \<^verbatim>\<open>isInvalidLine\<close> and
  \<^verbatim>\<open>isLineCovered\<close>, together with the parts of the Go standard library and of the
  \<^verbatim>\<open>gitdiff\<close> and \<^verbatim>\<open>cover\<close> packages that they use.

  Conventions.
  \<^item> Go's \<^verbatim>\<open>int\<close> and \<^verbatim>\<open>int64\<close> are 64-bit two's complement words (a 64-bit target):
    \<open>+\<close> and \<open>-\<close> wrap around, comparisons are the signed ones (\<open>\<le>s\<close>, \<open><s\<close>).
  \<^item> Go strings are byte sequences: \<open>string\<close>, one \<open>char\<close> per byte.
  \<^item> \<^verbatim>\<open>float64\<close> is IEEE 754 binary64: a value is a signed mantissa and exponent, an
    infinity or NaN, and conversion, division and multiplication round to nearest, ties
    to even.
  \<^item> Go maps are partial functions; the order in which a \<^verbatim>\<open>range\<close> statement visits
    the keys of a map is not specified by the language, so it is an input of the model
    (\<open>range_order\<close>).
  \<^item> The file \<^verbatim>\<open>uncovered_lines.txt\<close> is the only part of the file system the code
    touches; its state is an input of the model too.
\<close>

subsection \<open>Data model\<close>

type_synonym go_int = "64 word"

text \<open>\<^verbatim>\<open>gitdiff.LineOp\<close>, \<^verbatim>\<open>gitdiff.Line\<close>, \<^verbatim>\<open>gitdiff.TextFragment\<close> and
  \<^verbatim>\<open>gitdiff.File\<close>, with the fields the code reads.\<close>

datatype LineOp = OpContext | OpDelete | OpAdd

record gitdiff_Line =
  Op :: LineOp
  Line :: string

record TextFragment =
  NewPosition :: go_int
  Lines :: "gitdiff_Line list"

record File =
  NewName :: string
  TextFragments :: "TextFragment list"

text \<open>\<^verbatim>\<open>cover.ProfileBlock\<close> and \<^verbatim>\<open>cover.Profile\<close>.\<close>

record ProfileBlock =
  StartLine :: go_int
  StartCol :: go_int
  EndLine :: go_int
  EndCol :: go_int
  NumStmt :: go_int
  Count :: go_int

record Profile =
  FileName :: string
  Mode :: string
  Blocks :: "ProfileBlock list"

text \<open>A \<^verbatim>\<open>float64\<close>: \<open>Finite s m e\<close> is the number \<open>m * 2^e\<close>, negative when \<open>s\<close> is true,
  with \<open>0 \<le> m < 2^53\<close> and \<open>- 1074 \<le> e \<le> 971\<close>, and \<open>2^52 \<le> m\<close> unless \<open>e = - 1074\<close>
  (subnormal numbers and the two zeros); \<open>Infinity s\<close> is the infinity of that sign. The
  payload of a NaN is not modelled. \<open>float_zero\<close> is the zero value of the type.\<close>

datatype go_float = Finite bool int int | Infinity bool | NaN

definition float_zero :: go_float where
  "float_zero = Finite False 0 (- 1074)"

text \<open>The structs of \<^verbatim>\<open>cover.go\<close> itself.\<close>

record Line =
  LineNum :: go_int
  NumStmt :: go_int
  CoverCount :: go_int
  LineString :: string

record CoverageData =
  NumStmt :: go_int
  CoverCount :: go_int
  Coverage :: go_float
  PatchNumStmt :: go_int
  PatchCoverCount :: go_int
  PatchCoverage :: go_float
  HasPrevCoverage :: bool
  PrevNumStmt :: go_int
  PrevCoverCount :: go_int
  PrevCoverage :: go_float
  Uncovered_lines :: string

datatype error = Error string

text \<open>The zero value of \<^verbatim>\<open>CoverageData\<close> (\<^verbatim>\<open>var data CoverageData\<close>).\<close>

definition zero_CoverageData :: CoverageData where
  "zero_CoverageData =
     \<lparr>CoverageData.NumStmt = 0, CoverageData.CoverCount = 0, Coverage = float_zero,
      PatchNumStmt = 0, PatchCoverCount = 0, PatchCoverage = float_zero,
      HasPrevCoverage = False, PrevNumStmt = 0, PrevCoverCount = 0,
      PrevCoverage = float_zero,
      Uncovered_lines = []\<rparr>"

text \<open>What the run depends on besides its three arguments: the order in which
  \<^verbatim>\<open>range partiallyCoveredLines\<close> visits the file names, whether
  \<^verbatim>\<open>os.Create("uncovered_lines.txt")\<close> fails, and what \<^verbatim>\<open>os.ReadFile\<close> finds when the
  file was not created by this run (\<open>None\<close>: the read fails).\<close>

record Env =
  range_order :: "string list"
  create_fails :: bool
  stale_file :: "string option"

subsection \<open>The Go library functions used\<close>

text \<open>\<^verbatim>\<open>strings.HasPrefix\<close>, \<^verbatim>\<open>strings.HasSuffix\<close>: length test, then comparison of a slice.\<close>

definition HasPrefix :: "string \<Rightarrow> string \<Rightarrow> bool" where
  "HasPrefix s pre = (length pre \<le> length s \<and> take (length pre) s = pre)"

definition HasSuffix :: "string \<Rightarrow> string \<Rightarrow> bool" where
  "HasSuffix s suf = (length suf \<le> length s \<and> drop (length s - length suf) s = suf)"

text \<open>\<^verbatim>\<open>strings.Contains\<close>: some position of \<open>s\<close> starts an occurrence of \<open>sub\<close>.\<close>

fun Contains :: "string \<Rightarrow> string \<Rightarrow> bool" where
  "Contains [] sub = (sub = [])"
| "Contains (c # s) sub = (HasPrefix (c # s) sub \<or> Contains s sub)"

text \<open>\<^verbatim>\<open>strings.ReplaceAll(s, "\n", "")\<close>: every line-feed byte is removed.\<close>

definition remove_newlines :: "string \<Rightarrow> string" where
  "remove_newlines s = filter (\<lambda>c. c \<noteq> CHR 0x0A) s"

text \<open>\<^verbatim>\<open>strings.TrimSpace\<close> removes leading and trailing white space as defined by Unicode
  (\<^verbatim>\<open>unicode.IsSpace\<close>). On bytes, a white-space rune is one of the six ASCII bytes, or the
  UTF-8 encoding of U+0085, U+00A0, U+1680, U+2000 to U+200A, U+2028, U+2029, U+202F,
  U+205F or U+3000; a byte sequence that is not valid UTF-8 decodes to the replacement
  rune, which is not white space.\<close>

definition space_runes :: "string list" where
  "space_runes =
     [[CHR 0x09], [CHR 0x0A], [CHR 0x0B], [CHR 0x0C], [CHR 0x0D], [CHR 0x20],
      [CHR 0xC2, CHR 0x85], [CHR 0xC2, CHR 0xA0], [CHR 0xE1, CHR 0x9A, CHR 0x80],
      [CHR 0xE2, CHR 0x80, CHR 0x80], [CHR 0xE2, CHR 0x80, CHR 0x81],
      [CHR 0xE2, CHR 0x80, CHR 0x82], [CHR 0xE2, CHR 0x80, CHR 0x83],
      [CHR 0xE2, CHR 0x80, CHR 0x84], [CHR 0xE2, CHR 0x80, CHR 0x85],
      [CHR 0xE2, CHR 0x80, CHR 0x86], [CHR 0xE2, CHR 0x80, CHR 0x87],
      [CHR 0xE2, CHR 0x80, CHR 0x88], [CHR 0xE2, CHR 0x80, CHR 0x89],
      [CHR 0xE2, CHR 0x80, CHR 0x8A], [CHR 0xE2, CHR 0x80, CHR 0xA8],
      [CHR 0xE2, CHR 0x80, CHR 0xA9], [CHR 0xE2, CHR 0x80, CHR 0xAF],
      [CHR 0xE2, CHR 0x81, CHR 0x9F], [CHR 0xE3, CHR 0x80, CHR 0x80]]"

text \<open>The number of bytes of the white-space rune that \<open>s\<close> starts with (ends with),
  or \<open>0\<close> when it starts (ends) with none.\<close>

definition leading_space :: "string \<Rightarrow> nat" where
  "leading_space s = (case find (HasPrefix s) space_runes of None \<Rightarrow> 0 | Some w \<Rightarrow> length w)"

definition trailing_space :: "string \<Rightarrow> nat" where
  "trailing_space s = (case find (HasSuffix s) space_runes of None \<Rightarrow> 0 | Some w \<Rightarrow> length w)"

function TrimLeftSpace :: "string \<Rightarrow> string" where
  "TrimLeftSpace s =
     (if leading_space s = 0 then s else TrimLeftSpace (drop (leading_space s) s))"
  by pat_completeness auto
termination
proof (relation "measure length")
  fix s :: string
  assume "leading_space s \<noteq> 0"
  moreover from this have "s \<noteq> []"
    by (auto simp: leading_space_def HasPrefix_def space_runes_def)
  ultimately show "(drop (leading_space s) s, s) \<in> measure length"
    by simp
qed simp

function TrimRightSpace :: "string \<Rightarrow> string" where
  "TrimRightSpace s =
     (if trailing_space s = 0 then s
      else TrimRightSpace (take (length s - trailing_space s) s))"
  by pat_completeness auto
termination
proof (relation "measure length")
  fix s :: string
  assume "trailing_space s \<noteq> 0"
  moreover from this have "s \<noteq> []"
    by (auto simp: trailing_space_def HasSuffix_def space_runes_def)
  ultimately show "(take (length s - trailing_space s) s, s) \<in> measure length"
    by simp
qed simp

declare TrimLeftSpace.simps [simp del] TrimRightSpace.simps [simp del]

text \<open>\<^verbatim>\<open>TrimSpace\<close> is \<^verbatim>\<open>TrimRightFunc(TrimLeftFunc(s, unicode.IsSpace), unicode.IsSpace)\<close>;
  its ASCII fast path computes the same string.\<close>

definition TrimSpace :: "string \<Rightarrow> string" where
  "TrimSpace s = TrimRightSpace (TrimLeftSpace s)"

text \<open>\<^verbatim>\<open>fmt.Sprintf("%d", n)\<close>: the decimal digits, with a minus sign for a negative
  number.\<close>

definition digit_char :: "nat \<Rightarrow> char" where
  "digit_char d = char_of (48 + d)"

function itoa_nat :: "nat \<Rightarrow> string" where
  "itoa_nat n = (if n < 10 then [digit_char n] else itoa_nat (n div 10) @ [digit_char (n mod 10)])"
  by pat_completeness auto
termination
  by (relation "measure id") auto

declare itoa_nat.simps [simp del]

definition itoa :: "int \<Rightarrow> string" where
  "itoa i = (if i < 0 then CHR ''-'' # itoa_nat (nat (- i)) else itoa_nat (nat i))"

subsection \<open>\<^verbatim>\<open>float64\<close> arithmetic\<close>

text \<open>The number of binary digits of a positive integer.\<close>

function bit_length :: "int \<Rightarrow> nat" where
  "bit_length n = (if n \<le> 0 then 0 else Suc (bit_length (n div 2)))"
  by pat_completeness auto
termination
  by (relation "measure nat") auto

declare bit_length.simps [simp del]

text \<open>For positive \<open>p\<close> and \<open>q\<close>, the integer \<open>t\<close> with \<open>2^t \<le> p / q < 2^(t + 1)\<close>: the
  difference \<open>d\<close> of the bit lengths when \<open>2^d \<le> p / q\<close>, else \<open>d - 1\<close>.\<close>

definition floor_log2_ratio :: "int \<Rightarrow> int \<Rightarrow> int" where
  "floor_log2_ratio p q =
     (let d = int (bit_length p) - int (bit_length q)
      in if q * 2 ^ nat d \<le> p * 2 ^ nat (- d) then d else d - 1)"

text \<open>The integer nearest to \<open>n / d\<close>, the even one of the two when \<open>n / d\<close> lies half way
  between them.\<close>

definition round_half_even :: "int \<Rightarrow> int \<Rightarrow> int" where
  "round_half_even n d =
     (let m = n div d; r = n mod d
      in if d < 2 * r \<or> (2 * r = d \<and> odd m) then m + 1 else m)"

text \<open>The \<^verbatim>\<open>float64\<close> nearest to \<open>(p / q) * 2^k\<close> with the sign \<open>s\<close>, for \<open>0 \<le> p\<close> and \<open>0 < q\<close>:
  the unit \<open>2^e\<close> of the result is 52 binary places below the leading digit, but not
  below \<open>2^(- 1074)\<close>; a mantissa that rounds up to \<open>2^53\<close> moves to the next exponent, and
  a result beyond the largest finite number is an infinity.\<close>

definition round_ratio :: "bool \<Rightarrow> int \<Rightarrow> int \<Rightarrow> int \<Rightarrow> go_float" where
  "round_ratio s p q k =
     (if p = 0 then Finite s 0 (- 1074)
      else let e = max (floor_log2_ratio p q + k - 52) (- 1074);
               m = round_half_even (p * 2 ^ nat (k - e)) (q * 2 ^ nat (e - k))
           in if m = 2 ^ 53 then (if 971 < e + 1 then Infinity s else Finite s (2 ^ 52) (e + 1))
              else if 971 < e then Infinity s else Finite s m e)"

text \<open>The conversion \<^verbatim>\<open>float64(n)\<close> of an \<^verbatim>\<open>int\<close>, and the constant \<^verbatim>\<open>100\<close>, which is
  \<open>7036874417766400 * 2^(- 46)\<close>.\<close>

definition float64 :: "go_int \<Rightarrow> go_float" where
  "float64 n = round_ratio (sint n < 0) \<bar>sint n\<bar> 1 0"

definition float_100 :: go_float where
  "float_100 = Finite False 7036874417766400 (- 46)"

text \<open>The operators \<^verbatim>\<open>/\<close> and \<^verbatim>\<open>*\<close> on \<^verbatim>\<open>float64\<close>. Go does not panic on a float division by
  zero: \<open>0 / 0\<close> is NaN and any other number divided by a zero is an infinity.\<close>

fun fdiv :: "go_float \<Rightarrow> go_float \<Rightarrow> go_float" where
  "fdiv NaN y = NaN"
| "fdiv x NaN = NaN"
| "fdiv (Infinity s) (Infinity t) = NaN"
| "fdiv (Infinity s) (Finite t m e) = Infinity (s \<noteq> t)"
| "fdiv (Finite s m e) (Infinity t) = Finite (s \<noteq> t) 0 (- 1074)"
| "fdiv (Finite s m e) (Finite t n f) =
     (if n = 0 then (if m = 0 then NaN else Infinity (s \<noteq> t))
      else round_ratio (s \<noteq> t) m n (e - f))"

fun fmul :: "go_float \<Rightarrow> go_float \<Rightarrow> go_float" where
  "fmul NaN y = NaN"
| "fmul x NaN = NaN"
| "fmul (Infinity s) (Infinity t) = Infinity (s \<noteq> t)"
| "fmul (Infinity s) (Finite t m e) = (if m = 0 then NaN else Infinity (s \<noteq> t))"
| "fmul (Finite s m e) (Infinity t) = (if m = 0 then NaN else Infinity (s \<noteq> t))"
| "fmul (Finite s m e) (Finite t n f) = round_ratio (s \<noteq> t) (m * n) 1 (e + f)"

subsection \<open>The line classifier and the covered-line test\<close>

text \<open>\<^verbatim>\<open>isInvalidLine\<close>, in the source's order of disjuncts.\<close>

definition isInvalidLine :: "string \<Rightarrow> bool" where
  "isInvalidLine line0 =
     (let line = TrimSpace line0
      in HasPrefix line ''//'' \<or> HasPrefix line ''/*'' \<or> HasSuffix line ''*/'' \<or> line = []
         \<or> Contains line ''`json:'')"

fun isLineCovered :: "Line \<Rightarrow> Line list \<Rightarrow> bool" where
  "isLineCovered line [] = False"
| "isLineCovered line (coveredLine # rest) =
     (if LineNum coveredLine = LineNum line \<and> LineString coveredLine = LineString line
         \<and> Line.CoverCount coveredLine = Line.CoverCount line
      then True else isLineCovered line rest)"

subsection \<open>Step 2: the patch loops of \<^verbatim>\<open>computeCoverage\<close>\<close>

text \<open>The variables the patch loops update: \<^verbatim>\<open>data\<close> and the two maps from file name to
  lines. \<^verbatim>\<open>m[k] = append(m[k], x)\<close> reads the empty slice for a missing key.\<close>

record PatchState =
  data :: CoverageData
  coveredLines :: "string \<rightharpoonup> Line list"
  partiallyCoveredLines :: "string \<rightharpoonup> Line list"

definition lines_at :: "(string \<rightharpoonup> Line list) \<Rightarrow> string \<Rightarrow> Line list" where
  "lines_at m k = (case m k of None \<Rightarrow> [] | Some ls \<Rightarrow> ls)"

definition append_line :: "(string \<rightharpoonup> Line list) \<Rightarrow> string \<Rightarrow> Line \<Rightarrow> (string \<rightharpoonup> Line list)" where
  "append_line m k entry = m(k \<mapsto> lines_at m k @ [entry])"

definition init_state :: PatchState where
  "init_state = \<lparr>data = zero_CoverageData, coveredLines = Map.empty,
                 partiallyCoveredLines = Map.empty\<rparr>"

text \<open>The test of line 117.\<close>

definition in_block :: "ProfileBlock \<Rightarrow> go_int \<Rightarrow> bool" where
  "in_block b lineNum = (StartLine b \<le>s lineNum \<and> lineNum \<le>s EndLine b)"

text \<open>Lines 118 to 137: the block \<open>b\<close> of profile \<open>p\<close> is hit by the Add line with number
  \<open>lineNum\<close> and text \<open>lineString\<close>.\<close>

definition credit :: "Profile \<Rightarrow> ProfileBlock \<Rightarrow> go_int \<Rightarrow> string \<Rightarrow> PatchState \<Rightarrow> PatchState" where
  "credit p b lineNum lineString st =
     (let d = (data st)\<lparr>PatchNumStmt := PatchNumStmt (data st) + ProfileBlock.NumStmt b\<rparr>;
          entry = \<lparr>LineNum = lineNum, Line.NumStmt = ProfileBlock.NumStmt b,
                Line.CoverCount = Count b, LineString = lineString\<rparr>
      in if 0 <s Count b
         then st\<lparr>data := d\<lparr>PatchCoverCount := PatchCoverCount d + ProfileBlock.NumStmt b\<rparr>,
                 coveredLines := append_line (coveredLines st) (FileName p) entry\<rparr>
         else st\<lparr>data := d,
                 partiallyCoveredLines := append_line (partiallyCoveredLines st) (FileName p) entry\<rparr>)"

text \<open>\<^verbatim>\<open>for i, line := range t.Lines\<close> for the block \<open>b\<close>, from index \<open>i\<close> on; \<open>pos\<close> is
  \<^verbatim>\<open>t.NewPosition\<close>. \<open>Some st'\<close>: a line hit the block, the state is updated and
  \<^verbatim>\<open>continue blockloop\<close> is taken. \<open>None\<close>: the loop ran to its end.\<close>

fun scan_lines :: "Profile \<Rightarrow> ProfileBlock \<Rightarrow> go_int \<Rightarrow> nat \<Rightarrow> gitdiff_Line list \<Rightarrow> PatchState \<Rightarrow> PatchState option" where
  "scan_lines p b pos i [] st = None"
| "scan_lines p b pos i (line # rest) st =
     (if Op line \<noteq> OpAdd then scan_lines p b pos (Suc i) rest st
      else let lineNum = pos + of_nat i;
               lineString = remove_newlines (Line line)
           in if in_block b lineNum then Some (credit p b lineNum lineString st)
              else scan_lines p b pos (Suc i) rest st)"

text \<open>\<^verbatim>\<open>for _, t := range f.TextFragments\<close> for the block \<open>b\<close>.\<close>

fun scan_fragments :: "Profile \<Rightarrow> ProfileBlock \<Rightarrow> TextFragment list \<Rightarrow> PatchState \<Rightarrow> PatchState option" where
  "scan_fragments p b [] st = None"
| "scan_fragments p b (t # ts) st =
     (case scan_lines p b (NewPosition t) 0 (Lines t) st of
        Some st' \<Rightarrow> Some st'
      | None \<Rightarrow> scan_fragments p b ts st)"

text \<open>\<^verbatim>\<open>blockloop: for _, b := range p.Blocks\<close>.\<close>

fun blockloop :: "Profile \<Rightarrow> File \<Rightarrow> ProfileBlock list \<Rightarrow> PatchState \<Rightarrow> PatchState" where
  "blockloop p f [] st = st"
| "blockloop p f (b # bs) st =
     blockloop p f bs
       (case scan_fragments p b (TextFragments f) st of Some st' \<Rightarrow> st' | None \<Rightarrow> st)"

text \<open>\<^verbatim>\<open>for _, f := range diffFiles\<close> for the profile \<open>p\<close>, with the suffix test of line 100.\<close>

fun file_loop :: "Profile \<Rightarrow> File list \<Rightarrow> PatchState \<Rightarrow> PatchState" where
  "file_loop p [] st = st"
| "file_loop p (f # fs) st =
     file_loop p fs
       (if \<not> HasSuffix (FileName p) (NewName f) then st else blockloop p f (Blocks p) st)"

text \<open>\<^verbatim>\<open>for _, p := range coverProfiles\<close> (line 97).\<close>

fun patch_loop :: "File list \<Rightarrow> Profile list \<Rightarrow> PatchState \<Rightarrow> PatchState" where
  "patch_loop diffFiles [] st = st"
| "patch_loop diffFiles (p # ps) st = patch_loop diffFiles ps (file_loop p diffFiles st)"

subsection \<open>Step 3: the totals of the current and of the previous profile\<close>

fun total_blocks :: "ProfileBlock list \<Rightarrow> CoverageData \<Rightarrow> CoverageData" where
  "total_blocks [] d = d"
| "total_blocks (b # bs) d =
     total_blocks bs
       (let d1 = d\<lparr>CoverageData.NumStmt := CoverageData.NumStmt d + ProfileBlock.NumStmt b\<rparr>
        in if 0 <s Count b
           then d1\<lparr>CoverageData.CoverCount := CoverageData.CoverCount d1 + ProfileBlock.NumStmt b\<rparr>
           else d1)"

fun total_coverage :: "Profile list \<Rightarrow> CoverageData \<Rightarrow> CoverageData" where
  "total_coverage [] d = d"
| "total_coverage (p # ps) d = total_coverage ps (total_blocks (Blocks p) d)"

fun prev_blocks :: "ProfileBlock list \<Rightarrow> CoverageData \<Rightarrow> CoverageData" where
  "prev_blocks [] d = d"
| "prev_blocks (b # bs) d =
     prev_blocks bs
       (let d1 = d\<lparr>PrevNumStmt := PrevNumStmt d + ProfileBlock.NumStmt b\<rparr>
        in if 0 <s Count b
           then d1\<lparr>PrevCoverCount := PrevCoverCount d1 + ProfileBlock.NumStmt b\<rparr>
           else d1)"

fun prev_total_coverage :: "Profile list \<Rightarrow> CoverageData \<Rightarrow> CoverageData" where
  "prev_total_coverage [] d = d"
| "prev_total_coverage (p # ps) d = prev_total_coverage ps (prev_blocks (Blocks p) d)"

subsection \<open>Step 4: \<^verbatim>\<open>printUncoveredLines\<close>\<close>

text \<open>\<^verbatim>\<open>for _, line := range lines\<close> (lines 211 to 225), on \<^verbatim>\<open>data\<close> and
  \<^verbatim>\<open>uncoveredLines\<close>; \<open>ok\<close> and \<open>covered\<close> are \<^verbatim>\<open>ok\<close> and \<^verbatim>\<open>coveredLines[fileName]\<close>.\<close>

fun classify_lines :: "bool \<Rightarrow> Line list \<Rightarrow> Line list \<Rightarrow> CoverageData \<times> Line list \<Rightarrow> CoverageData \<times> Line list" where
  "classify_lines ok covered [] acc = acc"
| "classify_lines ok covered (line # rest) (d, uncoveredLines) =
     (let uncovered = (\<not> ok \<or> \<not> isLineCovered line covered)
      in classify_lines ok covered rest
           (if \<not> isInvalidLine (LineString line)
            then (if uncovered then (d, uncoveredLines @ [line]) else (d, uncoveredLines))
            else let d1 = d\<lparr>PatchNumStmt := PatchNumStmt d - Line.NumStmt line\<rparr>
                 in (if \<not> uncovered
                     then d1\<lparr>PatchCoverCount := PatchCoverCount d1 - Line.NumStmt line\<rparr>
                     else d1,
                     uncoveredLines)))"

text \<open>The file handle is \<open>Some\<close> of what has been written so far, or \<open>None\<close> when
  \<^verbatim>\<open>os.Create\<close> failed: the handle is then nil, and \<^verbatim>\<open>WriteString\<close> and \<^verbatim>\<open>Close\<close> on a
  nil \<^verbatim>\<open>*os.File\<close> return an error, which the code ignores.\<close>

definition WriteString :: "string option \<Rightarrow> string \<Rightarrow> string option" where
  "WriteString file s = (case file of None \<Rightarrow> None | Some written \<Rightarrow> Some (written @ s))"

definition newline :: string where
  "newline = [CHR 0x0A]"

fun write_lines :: "string option \<Rightarrow> Line list \<Rightarrow> string option" where
  "write_lines file [] = file"
| "write_lines file (line # rest) =
     write_lines
       (WriteString
          (WriteString file (''LineNum: '' @ itoa (sint (LineNum line)) @ newline))
          (''Lines:'' @ newline @ '' <code>'' @ LineString line @ ''</code>'' @ newline))
       rest"

text \<open>Lines 228 to 243.\<close>

definition write_section :: "string option \<Rightarrow> string \<Rightarrow> Line list \<Rightarrow> string option" where
  "write_section file fileName uncoveredLines =
     (if 0 < length uncoveredLines
      then let f1 = WriteString file (''<pre>'' @ newline);
               f2 = WriteString f1 (''Uncovered lines in '' @ fileName @ '':'' @ newline);
               f3 = write_lines f2 uncoveredLines;
               f4 = WriteString f3 (newline @ ''-----------------------'' @ newline)
           in WriteString f4 (''</pre>'' @ newline)
      else file)"

text \<open>\<^verbatim>\<open>for fileName, lines := range partiallyCoveredLines\<close>, visiting the keys in the
  order \<open>ks\<close>.\<close>

fun range_files :: "string list \<Rightarrow> (string \<rightharpoonup> Line list) \<Rightarrow> (string \<rightharpoonup> Line list) \<Rightarrow> CoverageData \<times> string option \<Rightarrow> CoverageData \<times> string option" where
  "range_files [] partially covered acc = acc"
| "range_files (fileName # ks) partially covered (d, file) =
     (let lines = lines_at partially fileName;
          ok = (covered fileName \<noteq> None);
          (d', uncoveredLines) = classify_lines ok (lines_at covered fileName) lines (d, [])
      in range_files ks partially covered (d', write_section file fileName uncoveredLines))"

text \<open>\<^verbatim>\<open>os.ReadFile\<close> at the end: what this run wrote when the file was created (a file
  that could be created is taken to be written and read back without error), else
  whatever the file system holds (the empty string when the read fails). The lines that
  the function prints to standard output are not part of the model.\<close>

definition ReadFile :: "Env \<Rightarrow> string option \<Rightarrow> string" where
  "ReadFile env file =
     (case file of
        Some written \<Rightarrow> written
      | None \<Rightarrow> (case stale_file env of None \<Rightarrow> [] | Some old \<Rightarrow> old))"

definition printUncoveredLines :: "Env \<Rightarrow> (string \<rightharpoonup> Line list) \<Rightarrow> (string \<rightharpoonup> Line list) \<Rightarrow> CoverageData \<Rightarrow> CoverageData" where
  "printUncoveredLines env partially covered d =
     (let file = (if create_fails env then None else Some []);
          (d', file') = range_files (range_order env) partially covered (d, file)
      in d'\<lparr>Uncovered_lines := ReadFile env file'\<rparr>)"

text \<open>A \<^verbatim>\<open>range\<close> statement visits every key of the map once, in some order.\<close>

definition range_visits :: "string list \<Rightarrow> (string \<rightharpoonup> Line list) \<Rightarrow> bool" where
  "range_visits ks m = (distinct ks \<and> set ks = dom m)"

subsection \<open>Step 5 and \<^verbatim>\<open>computeCoverage\<close>\<close>

text \<open>Lines 169 to 182.\<close>

definition percentages :: "CoverageData \<Rightarrow> CoverageData" where
  "percentages d =
     (let d1 = (if CoverageData.NumStmt d \<noteq> 0
                then d\<lparr>Coverage :=
                       fmul (fdiv (float64 (CoverageData.CoverCount d))
                                  (float64 (CoverageData.NumStmt d))) float_100\<rparr>
                else d);
          d2 = (if PatchNumStmt d1 \<noteq> 0
                then d1\<lparr>PatchCoverage :=
                       fmul (fdiv (float64 (PatchCoverCount d1)) (float64 (PatchNumStmt d1)))
                         float_100\<rparr>
                else d1);
          d3 = (if PrevNumStmt d2 \<noteq> 0
                then d2\<lparr>PrevCoverage :=
                       fmul (fdiv (float64 (PrevCoverCount d2)) (float64 (PrevNumStmt d2)))
                         float_100\<rparr>
                else d2)
      in if PatchNumStmt d3 = 0 then d3\<lparr>PatchCoverage := float_100\<rparr> else d3)"

text \<open>The state after the patch loops, and the whole function. The second component of
  the result is the \<^verbatim>\<open>error\<close>; \<open>None\<close> is \<^verbatim>\<open>nil\<close>.\<close>

definition patch_coverage :: "File list \<Rightarrow> Profile list \<Rightarrow> PatchState" where
  "patch_coverage diffFiles coverProfiles = patch_loop diffFiles coverProfiles init_state"

definition computeCoverage :: "Env \<Rightarrow> File list \<Rightarrow> Profile list \<Rightarrow> Profile list \<Rightarrow> CoverageData \<times> error option" where
  "computeCoverage env diffFiles coverProfiles prevCoverProfiles =
     (let st = patch_coverage diffFiles coverProfiles;
          d1 = total_coverage coverProfiles (data st);
          d2 = prev_total_coverage prevCoverProfiles d1;
          d3 = printUncoveredLines env (partiallyCoveredLines st) (coveredLines st) d2
      in (percentages d3, None))"

text \<open>The environments in which \<^verbatim>\<open>computeCoverage\<close> can run on the given arguments.\<close>

definition run_env :: "Env \<Rightarrow> File list \<Rightarrow> Profile list \<Rightarrow> bool" where
  "run_env env diffFiles coverProfiles =
     range_visits (range_order env) (partiallyCoveredLines (patch_coverage diffFiles coverProfiles))"

subsection \<open>Auxiliary notions for the statements\<close>

text \<open>\<open>patch_frame d d'\<close>: the two records differ at most in the two patch counters.\<close>

definition patch_frame :: "CoverageData \<Rightarrow> CoverageData \<Rightarrow> bool" where
  "patch_frame d d' = (d' = d\<lparr>PatchNumStmt := PatchNumStmt d', PatchCoverCount := PatchCoverCount d'\<rparr>)"

text \<open>What \<^verbatim>\<open>printUncoveredLines\<close> takes out of the two patch counters for the candidate
  lines \<open>ls\<close> of a file \<open>k\<close>, and the lines of the file that it writes to the side file.\<close>

definition invalid_stmts :: "Line list \<Rightarrow> go_int" where
  "invalid_stmts ls = sum_list (map Line.NumStmt (filter (\<lambda>l. isInvalidLine (LineString l)) ls))"

definition invalid_covered_stmts :: "(string \<rightharpoonup> Line list) \<Rightarrow> string \<Rightarrow> Line list \<Rightarrow> go_int" where
  "invalid_covered_stmts covered k ls =
     sum_list (map Line.NumStmt
       (filter (\<lambda>l. isInvalidLine (LineString l) \<and> covered k \<noteq> None
                     \<and> isLineCovered l (lines_at covered k)) ls))"

definition uncovered_lines_of :: "(string \<rightharpoonup> Line list) \<Rightarrow> (string \<rightharpoonup> Line list) \<Rightarrow> string \<Rightarrow> Line list" where
  "uncovered_lines_of partially covered k =
     filter (\<lambda>l. \<not> isInvalidLine (LineString l)
                  \<and> (covered k = None \<or> \<not> isLineCovered l (lines_at covered k)))
       (lines_at partially k)"

text \<open>The two zeros of \<^verbatim>\<open>float64\<close>.\<close>

definition is_zero :: "go_float \<Rightarrow> bool" where
  "is_zero x = (case x of Finite s m e \<Rightarrow> m = 0 | _ \<Rightarrow> False)"

text \<open>A string made of white-space runes only.\<close>

definition white_space :: "string \<Rightarrow> bool" where
  "white_space a = (\<exists>ws. set ws \<subseteq> set space_runes \<and> a = concat ws)"

text \<open>The Add lines of a hunk in the words of the specification: the number of an Add
  line is the hunk's new start line plus the position of the line among all lines of the
  hunk, its text is the line without line feeds.\<close>

definition add_lines :: "TextFragment \<Rightarrow> (go_int \<times> string) list" where
  "add_lines t =
     map (\<lambda>(i, line). (NewPosition t + of_nat i, remove_newlines (Line line)))
       (filter (\<lambda>(i, line). Op line = OpAdd) (enumerate 0 (Lines t)))"

text \<open>The first Add line of the diff file, in the order of its hunks and lines, whose
  number lies in the range of the block.\<close>

definition first_hit :: "File \<Rightarrow> ProfileBlock \<Rightarrow> (go_int \<times> string) option" where
  "first_hit f b = find (\<lambda>(n, s). in_block b n) (concat (map add_lines (TextFragments f)))"

text \<open>The blocks of the profile \<open>p\<close> that the patch credits: one entry for every diff
  file whose new name is a suffix of the profile's file name and every block of \<open>p\<close> that
  an Add line of that file hits.\<close>

definition credited :: "File list \<Rightarrow> Profile \<Rightarrow> ProfileBlock list" where
  "credited diffFiles p =
     concat (map (\<lambda>f. filter (\<lambda>b. first_hit f b \<noteq> None) (Blocks p))
       (filter (\<lambda>f. suffix (NewName f) (FileName p)) diffFiles))"

text \<open>The lines of the covered map come from blocks that ran, the candidate lines of the
  other map from blocks that did not.\<close>

definition counts_split :: "PatchState \<Rightarrow> bool" where
  "counts_split st =
     ((\<forall>k. \<forall>c\<in>set (lines_at (coveredLines st) k). 0 <s Line.CoverCount c) \<and>
      (\<forall>k. \<forall>l\<in>set (lines_at (partiallyCoveredLines st) k). \<not> 0 <s Line.CoverCount l))"

text \<open>What \<^verbatim>\<open>printUncoveredLines\<close> writes for one line and for one file.\<close>

definition line_text :: "Line \<Rightarrow> string" where
  "line_text l =
     ''LineNum: '' @ itoa (sint (LineNum l)) @ newline
     @ ''Lines:'' @ newline @ '' <code>'' @ LineString l @ ''</code>'' @ newline"

definition section_text :: "string \<Rightarrow> Line list \<Rightarrow> string" where
  "section_text fileName ls =
     (if ls = [] then []
      else ''<pre>'' @ newline @ ''Uncovered lines in '' @ fileName @ '':'' @ newline
           @ concat (map line_text ls)
           @ newline @ ''-----------------------'' @ newline @ ''</pre>'' @ newline)"

text \<open>The statements of all blocks of a list of profiles, and of all lines of a map, as
  unbounded integers.\<close>

definition stmt_total :: "Profile list \<Rightarrow> int" where
  "stmt_total ps = (\<Sum>b\<leftarrow>concat (map Blocks ps). sint (ProfileBlock.NumStmt b))"

definition line_stmts :: "(string \<rightharpoonup> Line list) \<Rightarrow> int" where
  "line_stmts m = (\<Sum>k\<in>dom m. \<Sum>l\<leftarrow>lines_at m k. sint (Line.NumStmt l))"

text \<open>The two patch counters are the statements of the recorded lines, none of them
  negative.\<close>

definition patch_inv :: "PatchState \<Rightarrow> bool" where
  "patch_inv st =
     (finite (dom (coveredLines st)) \<and> finite (dom (partiallyCoveredLines st)) \<and>
      (\<forall>k. \<forall>l\<in>set (lines_at (coveredLines st) k). 0 \<le> sint (Line.NumStmt l)) \<and>
      (\<forall>k. \<forall>l\<in>set (lines_at (partiallyCoveredLines st) k). 0 \<le> sint (Line.NumStmt l)) \<and>
      PatchNumStmt (data st) =
        of_int (line_stmts (coveredLines st) + line_stmts (partiallyCoveredLines st)) \<and>
      PatchCoverCount (data st) = of_int (line_stmts (coveredLines st)))"

subsection \<open>Example inputs\<close>

text \<open>A patch that adds the comment line \<^verbatim>\<open>// note\<close> as line 10 of \<^verbatim>\<open>a.go\<close>, a profile of
  \<^verbatim>\<open>m/a.go\<close> with one block over lines 10 to 12 holding two statements and executed
  \<open>cnt\<close> times, and an environment in which the side file can be written.\<close>

definition comment_diff :: "File list" where
  "comment_diff =
     [\<lparr>NewName = ''a.go'',
       TextFragments = [\<lparr>NewPosition = 10, Lines = [\<lparr>Op = OpAdd, Line = ''// note'' @ newline\<rparr>]\<rparr>]\<rparr>]"

definition one_block_profile :: "go_int \<Rightarrow> Profile list" where
  "one_block_profile cnt =
     [\<lparr>FileName = ''m/a.go'', Mode = ''count'',
       Blocks = [\<lparr>StartLine = 10, StartCol = 1, EndLine = 12, EndCol = 2,
                  ProfileBlock.NumStmt = 2, Count = cnt\<rparr>]\<rparr>]"

definition env_of :: "string list \<Rightarrow> Env" where
  "env_of ks = \<lparr>range_order = ks, create_fails = False, stale_file = None\<rparr>"

text \<open>A hunk with a context line followed by an added line, and a block on line 11.\<close>

definition context_then_add :: TextFragment where
  "context_then_add =
     \<lparr>NewPosition = 10,
      Lines = [\<lparr>Op = OpContext, Line = ''x := 1'' @ newline\<rparr>,
               \<lparr>Op = OpAdd, Line = ''y := 2'' @ newline\<rparr>]\<rparr>"

definition block_11 :: ProfileBlock where
  "block_11 = \<lparr>StartLine = 11, StartCol = 1, EndLine = 11, EndCol = 9,
               ProfileBlock.NumStmt = 1, Count = 0\<rparr>"

definition profile_11 :: Profile where
  "profile_11 = \<lparr>FileName = ''m/a.go'', Mode = ''count'', Blocks = [block_11]\<rparr>"

text \<open>A patch that touches \<^verbatim>\<open>a.go\<close> and \<^verbatim>\<open>b/a.go\<close>, adding line 10 to each, and a profile of
  \<^verbatim>\<open>m/b/a.go\<close> with one covered block of two statements over lines 10 to 12: both new
  names are suffixes of the profile's file name.\<close>

definition two_diffs :: "File list" where
  "two_diffs =
     [\<lparr>NewName = ''a.go'',
       TextFragments = [\<lparr>NewPosition = 10, Lines = [\<lparr>Op = OpAdd, Line = ''x := 1'' @ newline\<rparr>]\<rparr>]\<rparr>,
      \<lparr>NewName = ''b/a.go'',
       TextFragments = [\<lparr>NewPosition = 10, Lines = [\<lparr>Op = OpAdd, Line = ''y := 2'' @ newline\<rparr>]\<rparr>]\<rparr>]"

definition nested_profile :: "Profile list" where
  "nested_profile =
     [\<lparr>FileName = ''m/b/a.go'', Mode = ''count'',
       Blocks = [\<lparr>StartLine = 10, StartCol = 1, EndLine = 12, EndCol = 2,
                  ProfileBlock.NumStmt = 2, Count = 1\<rparr>]\<rparr>]"


text \<open>A patch in which line 10 of \<^verbatim>\<open>a.go\<close> is added, and a profile with two blocks that
  both contain line 10, one executed and one not: the same line, with the same text, is
  recorded as covered and as a candidate.\<close>

definition line_10_diff :: "File list" where
  "line_10_diff =
     [\<lparr>NewName = ''a.go'',
       TextFragments = [\<lparr>NewPosition = 10, Lines = [\<lparr>Op = OpAdd, Line = ''x := 1'' @ newline\<rparr>]\<rparr>]\<rparr>]"

definition overlapping_profile :: "Profile list" where
  "overlapping_profile =
     [\<lparr>FileName = ''m/a.go'', Mode = ''count'',
       Blocks = [\<lparr>StartLine = 10, StartCol = 1, EndLine = 10, EndCol = 7,
                  ProfileBlock.NumStmt = 2, Count = 1\<rparr>,
                 \<lparr>StartLine = 9, StartCol = 1, EndLine = 12, EndCol = 2,
                  ProfileBlock.NumStmt = 1, Count = 0\<rparr>]\<rparr>]"

text \<open>A patch that adds a line to \<^verbatim>\<open>a.go\<close> and a line to \<^verbatim>\<open>b.go\<close>, and a profile in which
  neither line was executed: both files have a candidate line.\<close>

definition two_files_diff :: "File list" where
  "two_files_diff =
     [\<lparr>NewName = ''a.go'',
       TextFragments = [\<lparr>NewPosition = 10, Lines = [\<lparr>Op = OpAdd, Line = ''x := 1'' @ newline\<rparr>]\<rparr>]\<rparr>,
      \<lparr>NewName = ''b.go'',
       TextFragments = [\<lparr>NewPosition = 20, Lines = [\<lparr>Op = OpAdd, Line = ''y := 2'' @ newline\<rparr>]\<rparr>]\<rparr>]"

definition two_files_profile :: "Profile list" where
  "two_files_profile =
     [\<lparr>FileName = ''m/a.go'', Mode = ''count'',
       Blocks = [\<lparr>StartLine = 10, StartCol = 1, EndLine = 10, EndCol = 7,
                  ProfileBlock.NumStmt = 1, Count = 0\<rparr>]\<rparr>,
      \<lparr>FileName = ''m/b.go'', Mode = ''count'',
       Blocks = [\<lparr>StartLine = 20, StartCol = 1, EndLine = 20, EndCol = 7,
                  ProfileBlock.NumStmt = 1, Count = 0\<rparr>]\<rparr>]"

text \<open>A profile whose two blocks hold \<open>2^63 - 1\<close> statements and one statement: each count
  is a non-negative \<^verbatim>\<open>int\<close>, as the profile parser requires, and their sum is not.\<close>

definition huge_profile :: "Profile list" where
  "huge_profile =
     [\<lparr>FileName = ''m/a.go'', Mode = ''count'',
       Blocks = [\<lparr>StartLine = 1, StartCol = 1, EndLine = 2, EndCol = 2,
                  ProfileBlock.NumStmt = 9223372036854775807, Count = 1\<rparr>,
                 \<lparr>StartLine = 3, StartCol = 1, EndLine = 4, EndCol = 2,
                  ProfileBlock.NumStmt = 1, Count = 0\<rparr>]\<rparr>]"

text \<open>The diff file that holds the hunk \<open>context_then_add\<close>.\<close>

definition context_then_add_file :: File where
  "context_then_add_file = \<lparr>NewName = ''a.go'', TextFragments = [context_then_add]\<rparr>"



text \<open>A struct field with an \<^verbatim>\<open>xml\<close> tag, and a field of this repository's
  \<^verbatim>\<open>ServiceConfig\<close> with its \<^verbatim>\<open>mapstructure\<close> tag (\<open>CHR 0x22\<close> is the double quote).\<close>

definition xml_tag_line :: string where
  "xml_tag_line = ''Name string `xml:'' @ [CHR 0x22] @ ''name'' @ [CHR 0x22] @ ''`''"

definition mapstructure_tag_line :: string where
  "mapstructure_tag_line =
     [CHR 0x09] @ ''UTServiceThreshold           float64 `mapstructure:'' @ [CHR 0x22]
     @ ''ut_service_threshold'' @ [CHR 0x22] @ ''`''"

text \<open>A profile of 100 statements, 7 of them in a block that ran.\<close>

definition seven_of_100_profile :: "Profile list" where
  "seven_of_100_profile =
     [\<lparr>FileName = ''m/a.go'', Mode = ''count'',
       Blocks = [\<lparr>StartLine = 1, StartCol = 1, EndLine = 5, EndCol = 2,
                  ProfileBlock.NumStmt = 7, Count = 1\<rparr>,
                 \<lparr>StartLine = 6, StartCol = 1, EndLine = 90, EndCol = 2,
                  ProfileBlock.NumStmt = 93, Count = 0\<rparr>]\<rparr>]"

section \<open>Properties\<close>

subsection \<open>Closed forms of the loops\<close>

lemma total_blocks_eq:
  "total_blocks bs d =
     d\<lparr>CoverageData.NumStmt := CoverageData.NumStmt d + sum_list (map ProfileBlock.NumStmt bs),
       CoverageData.CoverCount := CoverageData.CoverCount d
          + sum_list (map ProfileBlock.NumStmt (filter (\<lambda>b. 0 <s Count b) bs))\<rparr>"
  by (induction bs arbitrary: d) (simp_all add: Let_def algebra_simps)

lemma total_coverage_eq:
  "total_coverage ps d =
     d\<lparr>CoverageData.NumStmt := CoverageData.NumStmt d
          + sum_list (map ProfileBlock.NumStmt (concat (map Blocks ps))),
       CoverageData.CoverCount := CoverageData.CoverCount d
          + sum_list (map ProfileBlock.NumStmt (filter (\<lambda>b. 0 <s Count b) (concat (map Blocks ps))))\<rparr>"
  by (induction ps arbitrary: d) (simp_all add: total_blocks_eq algebra_simps)

lemma prev_blocks_eq:
  "prev_blocks bs d =
     d\<lparr>PrevNumStmt := PrevNumStmt d + sum_list (map ProfileBlock.NumStmt bs),
       PrevCoverCount := PrevCoverCount d
          + sum_list (map ProfileBlock.NumStmt (filter (\<lambda>b. 0 <s Count b) bs))\<rparr>"
  by (induction bs arbitrary: d) (simp_all add: Let_def algebra_simps)

lemma prev_total_coverage_eq:
  "prev_total_coverage ps d =
     d\<lparr>PrevNumStmt := PrevNumStmt d
          + sum_list (map ProfileBlock.NumStmt (concat (map Blocks ps))),
       PrevCoverCount := PrevCoverCount d
          + sum_list (map ProfileBlock.NumStmt (filter (\<lambda>b. 0 <s Count b) (concat (map Blocks ps))))\<rparr>"
  by (induction ps arbitrary: d) (simp_all add: prev_blocks_eq algebra_simps)

lemma patch_frame_refl: "patch_frame d d"
  by (simp add: patch_frame_def)

lemma patch_frame_trans: "patch_frame d d' \<Longrightarrow> patch_frame d' d'' \<Longrightarrow> patch_frame d d''"
  unfolding patch_frame_def
  by (metis (no_types, lifting) CoverageData.surjective CoverageData.update_convs(4,5))

lemma patch_frame_credit: "patch_frame (data st) (data (credit p b n s st))"
  by (simp add: patch_frame_def credit_def Let_def)

lemma patch_frame_scan_lines:
  "scan_lines p b pos i ls st = Some st' \<Longrightarrow> patch_frame (data st) (data st')"
  by (induction ls arbitrary: i) (auto simp: Let_def patch_frame_credit split: if_splits)

lemma patch_frame_scan_fragments:
  "scan_fragments p b ts st = Some st' \<Longrightarrow> patch_frame (data st) (data st')"
  by (induction ts) (auto simp: patch_frame_scan_lines split: option.splits)

lemma patch_frame_blockloop: "patch_frame (data st) (data (blockloop p f bs st))"
proof (induction bs arbitrary: st)
  case Nil
  show ?case by (simp add: patch_frame_refl)
next
  case (Cons b bs)
  show ?case
  proof (cases "scan_fragments p b (TextFragments f) st")
    case None
    then show ?thesis using Cons.IH [of st] by simp
  next
    case (Some st')
    then show ?thesis
      using Cons.IH [of st'] patch_frame_scan_fragments [OF Some]
      by (auto intro: patch_frame_trans)
  qed
qed

lemma patch_frame_file_loop: "patch_frame (data st) (data (file_loop p fs st))"
proof (induction fs arbitrary: st)
  case Nil
  show ?case by (simp add: patch_frame_refl)
next
  case (Cons f fs)
  show ?case
    using Cons.IH [of st] Cons.IH [of "blockloop p f (Blocks p) st"]
      patch_frame_blockloop [of st p f "Blocks p"]
    by (auto intro: patch_frame_trans)
qed

lemma patch_frame_patch_loop: "patch_frame (data st) (data (patch_loop fs ps st))"
proof (induction ps arbitrary: st)
  case Nil
  show ?case by (simp add: patch_frame_refl)
next
  case (Cons p ps)
  show ?case
    using Cons.IH [of "file_loop p fs st"] patch_frame_file_loop [of st p fs]
    by (auto intro: patch_frame_trans)
qed

lemma classify_lines_ok:
  "classify_lines True covered ls (d, acc) =
     (d\<lparr>PatchNumStmt := PatchNumStmt d
           - sum_list (map Line.NumStmt (filter (\<lambda>l. isInvalidLine (LineString l)) ls)),
        PatchCoverCount := PatchCoverCount d
           - sum_list (map Line.NumStmt
               (filter (\<lambda>l. isInvalidLine (LineString l) \<and> isLineCovered l covered) ls))\<rparr>,
      acc @ filter (\<lambda>l. \<not> isInvalidLine (LineString l) \<and> \<not> isLineCovered l covered) ls)"
  by (induction ls arbitrary: d acc) (simp_all add: Let_def diff_diff_eq)

lemma classify_lines_not_ok:
  "classify_lines False covered ls (d, acc) =
     (d\<lparr>PatchNumStmt := PatchNumStmt d
           - sum_list (map Line.NumStmt (filter (\<lambda>l. isInvalidLine (LineString l)) ls))\<rparr>,
      acc @ filter (\<lambda>l. \<not> isInvalidLine (LineString l)) ls)"
  by (induction ls arbitrary: d acc) (simp_all add: Let_def diff_diff_eq)

lemma classify_lines_eq:
  "classify_lines ok covered ls (d, acc) =
     (d\<lparr>PatchNumStmt := PatchNumStmt d
           - sum_list (map Line.NumStmt (filter (\<lambda>l. isInvalidLine (LineString l)) ls)),
        PatchCoverCount := PatchCoverCount d
           - sum_list (map Line.NumStmt
               (filter (\<lambda>l. isInvalidLine (LineString l) \<and> ok \<and> isLineCovered l covered) ls))\<rparr>,
      acc @ filter (\<lambda>l. \<not> isInvalidLine (LineString l) \<and> (\<not> ok \<or> \<not> isLineCovered l covered)) ls)"
  by (cases ok) (simp_all add: classify_lines_ok classify_lines_not_ok)

lemma patch_frame_classify_lines:
  "patch_frame d (fst (classify_lines ok covered ls (d, acc)))"
  by (simp add: classify_lines_eq patch_frame_def)

lemma patch_frame_range_files:
  "patch_frame d (fst (range_files ks partially covered (d, h)))"
proof (induction ks arbitrary: d h)
  case Nil
  show ?case by (simp add: patch_frame_refl)
next
  case (Cons k ks)
  show ?case
    using patch_frame_classify_lines [of d "covered k \<noteq> None" "lines_at covered k" "lines_at partially k" "[]"]
    by (auto simp: Let_def split: prod.splits intro: patch_frame_trans [OF _ Cons.IH])
qed

lemma range_files_fst:
  "fst (range_files ks partially covered (d, h)) =
     d\<lparr>PatchNumStmt := PatchNumStmt d
          - sum_list (map (\<lambda>k. invalid_stmts (lines_at partially k)) ks),
       PatchCoverCount := PatchCoverCount d
          - sum_list (map (\<lambda>k. invalid_covered_stmts covered k (lines_at partially k)) ks)\<rparr>"
  by (induction ks arbitrary: d h)
     (simp_all add: classify_lines_eq invalid_stmts_def invalid_covered_stmts_def diff_diff_eq Let_def)

lemma write_lines_None: "write_lines None ls = None"
  by (induction ls) (simp_all add: WriteString_def)

lemma write_section_None: "write_section None k ls = None"
  by (simp add: write_section_def WriteString_def write_lines_None)

lemma range_files_snd_None: "snd (range_files ks partially covered (d, None)) = None"
  by (induction ks arbitrary: d) (simp_all add: write_section_None split: prod.splits)

lemma percentages_Uncovered_lines:
  "percentages (d\<lparr>Uncovered_lines := u\<rparr>) = (percentages d)\<lparr>Uncovered_lines := u\<rparr>"
  by (simp add: percentages_def Let_def)

lemma printUncoveredLines_eq:
  "printUncoveredLines env partially covered d =
     (fst (range_files (range_order env) partially covered (d, None)))
       \<lparr>Uncovered_lines :=
          ReadFile env (snd (range_files (range_order env) partially covered
             (d, if create_fails env then None else Some [])))\<rparr>"
proof -
  obtain d' h' where r: "range_files (range_order env) partially covered
      (d, if create_fails env then None else Some []) = (d', h')"
    by (cases "range_files (range_order env) partially covered
      (d, if create_fails env then None else Some [])")
  have "d' = fst (range_files (range_order env) partially covered (d, None))"
    using arg_cong [OF r, of fst] by (simp only: range_files_fst fst_conv)
  then show ?thesis
    by (simp add: printUncoveredLines_def r)
qed

subsection \<open>The engine cannot fail\<close>

text \<open>
  Claim C9. \<^verbatim>\<open>computeCoverage\<close> returns a report with a nil error for all arguments and in
  every environment. When \<^verbatim>\<open>os.Create\<close> fails, the report is still returned: it is the
  report of the run in which the file could be created, except that \<^verbatim>\<open>Uncovered_lines\<close>
  holds whatever \<^verbatim>\<open>os.ReadFile\<close> finds on disk (the empty string when the read fails).
\<close>

theorem computeCoverage_never_fails:
  "snd (computeCoverage env diffFiles coverProfiles prevCoverProfiles) = None \<and>
   computeCoverage (env\<lparr>create_fails := True\<rparr>) diffFiles coverProfiles prevCoverProfiles =
     ((fst (computeCoverage env diffFiles coverProfiles prevCoverProfiles))
        \<lparr>Uncovered_lines := (case stale_file env of None \<Rightarrow> [] | Some old \<Rightarrow> old)\<rparr>,
      None)"
  by (simp add: computeCoverage_def Let_def printUncoveredLines_eq percentages_Uncovered_lines
        range_files_snd_None ReadFile_def)

subsection \<open>Evaluation of the examples\<close>

lemmas patch_defs =
  patch_coverage_def init_state_def HasSuffix_def in_block_def credit_def append_line_def
  lines_at_def remove_newlines_def newline_def Let_def word_sle_eq word_sless_alt

subsection \<open>Invalid lines in covered blocks\<close>

text \<open>
  Claim C1 says that a block whose matched Add lines are all classified invalid adds
  nothing to the final \<^verbatim>\<open>PatchNumStmt\<close>, whatever its count. The code does this only for
  blocks with count 0: \<^verbatim>\<open>printUncoveredLines\<close> walks the candidate lines of
  \<^verbatim>\<open>partiallyCoveredLines\<close> alone, so a block with a positive count that is hit by an
  invalid line keeps its statements in \<^verbatim>\<open>PatchNumStmt\<close> and \<^verbatim>\<open>PatchCoverCount\<close>. Here the
  added line is a comment; with count 3 the block's two statements stay in both patch
  counters, with count 0 they are taken out again.
\<close>

theorem invalid_covered_block_still_counted:
  "isInvalidLine (remove_newlines (''// note'' @ newline)) \<and>
   run_env (env_of []) comment_diff (one_block_profile 3) \<and>
   PatchNumStmt (fst (computeCoverage (env_of []) comment_diff (one_block_profile 3) [])) = 2 \<and>
   PatchCoverCount (fst (computeCoverage (env_of []) comment_diff (one_block_profile 3) [])) = 2 \<and>
   run_env (env_of [''m/a.go'']) comment_diff (one_block_profile 0) \<and>
   PatchNumStmt (fst (computeCoverage (env_of [''m/a.go'']) comment_diff (one_block_profile 0) [])) = 0"
proof -
  have "isInvalidLine (remove_newlines (''// note'' @ newline))"
    by code_simp
  moreover have "run_env (env_of []) comment_diff (one_block_profile 3)"
    by (simp add: run_env_def range_visits_def env_of_def patch_defs comment_diff_def
          one_block_profile_def)
  moreover have "PatchNumStmt (fst (computeCoverage (env_of []) comment_diff (one_block_profile 3) [])) = 2"
    by code_simp
  moreover have "PatchCoverCount (fst (computeCoverage (env_of []) comment_diff (one_block_profile 3) [])) = 2"
    by code_simp
  moreover have "run_env (env_of [''m/a.go'']) comment_diff (one_block_profile 0)"
    by (simp add: run_env_def range_visits_def env_of_def patch_defs comment_diff_def
          one_block_profile_def)
  moreover have "PatchNumStmt (fst (computeCoverage (env_of [''m/a.go'']) comment_diff (one_block_profile 0) [])) = 0"
    by code_simp
  ultimately show ?thesis
    by blast
qed

subsection \<open>Percentages\<close>

lemma bit_length_bounds: "0 < n \<Longrightarrow> 2 ^ (bit_length n - 1) \<le> n \<and> n < 2 ^ bit_length n"
proof (induction n rule: bit_length.induct)
  case (1 n)
  show ?case
  proof (cases "n div 2 = 0")
    case True
    with "1.prems" have "n = 1"
      by (simp add: zdiv_eq_0_iff)
    then show ?thesis
      by (simp add: bit_length.simps)
  next
    case False
    then have "2 ^ (bit_length (n div 2) - 1) \<le> n div 2 \<and> n div 2 < 2 ^ bit_length (n div 2)"
      using "1.IH" "1.prems" by simp
    moreover have "bit_length n = Suc (bit_length (n div 2))"
      using "1.prems" by (subst bit_length.simps) simp
    moreover have "0 \<le> n div 2"
      using "1.prems" by simp
    with False have "0 < n div 2"
      by simp
    then have "0 < bit_length (n div 2)"
      by (subst bit_length.simps) simp
    ultimately show ?thesis
      by (cases "bit_length (n div 2)") auto
  qed
qed

lemma bit_length_le: "n < 2 ^ k \<Longrightarrow> bit_length n \<le> k"
proof (cases "n \<le> 0")
  case True
  then show ?thesis by (simp add: bit_length.simps)
next
  case False
  assume less: "n < 2 ^ k"
  from False have "2 ^ (bit_length n - 1) \<le> n"
    using bit_length_bounds by simp
  from this less have "(2::int) ^ (bit_length n - 1) < 2 ^ k"
    by (rule le_less_trans)
  then have "bit_length n - 1 < k"
    by (simp only: power_strict_increasing_iff rel_simps)
  then show ?thesis by simp
qed

lemma round_half_even_ge: "n div d \<le> round_half_even n d"
  by (simp add: round_half_even_def Let_def)

lemma round_ratio_not_NaN: "round_ratio s p q k \<noteq> NaN"
  by (simp add: round_ratio_def Let_def)

lemma float64_Finite: "\<exists>m e. float64 n = Finite (sint n < 0) m e \<and> (m = 0 \<longleftrightarrow> n = 0)"
proof (cases "n = 0")
  case True
  then show ?thesis
    by (simp add: float64_def round_ratio_def)
next
  case False
  define a where "a = \<bar>sint n\<bar>"
  have a_pos: "0 < a"
    using False by (simp add: a_def signed_eq_0_iff)
  have "\<bar>sint n\<bar> \<le> 2 ^ 63"
    using sint_ge [of n] sint_lt [of n] by simp
  then have "a < 2 ^ 64"
    by (simp add: a_def)
  then have bl: "bit_length a \<le> 64"
    by (rule bit_length_le)
  have bl1: "bit_length 1 = 1"
    by (simp add: bit_length.simps)
  from bit_length_bounds [OF a_pos] have low: "2 ^ (bit_length a - 1) \<le> a"
    by simp
  have bl_pos: "0 < bit_length a"
    using a_pos by (subst bit_length.simps) simp
  have fl: "floor_log2_ratio a 1 = int (bit_length a) - 1"
    using low bl_pos by (simp add: floor_log2_ratio_def bl1 Let_def nat_diff_distrib)
  define e where "e = int (bit_length a) - 53"
  have e: "max (floor_log2_ratio a 1 + 0 - 52) (- 1074) = e"
    unfolding fl e_def using bl_pos by simp
  have e_le: "e \<le> 11"
    using bl by (simp add: e_def)
  define m where "m = round_half_even (a * 2 ^ nat (0 - e)) (1 * 2 ^ nat (e - 0))"
  have "1 \<le> (a * 2 ^ nat (0 - e)) div (1 * 2 ^ nat (e - 0))"
  proof (cases "e \<le> 0")
    case True
    have "1 * 1 \<le> a * 2 ^ nat (- e)"
      using a_pos by (intro mult_mono) simp_all
    with True show ?thesis by simp
  next
    case False
    then have "nat e \<le> bit_length a - 1"
      by (simp add: e_def)
    then have "(2::int) ^ nat e \<le> 2 ^ (bit_length a - 1)"
      by (rule power_increasing) simp
    from this low have "2 ^ nat e \<le> a"
      by (rule order_trans)
    then have "0 < a div 2 ^ nat e"
      by (simp add: pos_imp_zdiv_pos_iff)
    with False show ?thesis
      by simp
  qed
  then have m_pos: "0 < m"
    using round_half_even_ge [of "a * 2 ^ nat (0 - e)" "1 * 2 ^ nat (e - 0)"]
    unfolding m_def by linarith
  have "float64 n =
      (if m = 2 ^ 53 then Finite (sint n < 0) (2 ^ 52) (e + 1) else Finite (sint n < 0) m e)"
    using a_pos e_le unfolding float64_def round_ratio_def a_def [symmetric] e Let_def m_def
    by simp
  with m_pos False show ?thesis
    by auto
qed

lemma is_zero_float64: "is_zero (float64 n) \<longleftrightarrow> n = 0"
  using float64_Finite [of n] by (auto simp: is_zero_def)

lemma percentage_not_NaN:
  assumes "n \<noteq> 0"
  shows "fmul (fdiv (float64 c) (float64 n)) float_100 \<noteq> NaN"
proof -
  obtain m e where c: "float64 c = Finite (sint c < 0) m e"
    using float64_Finite [of c] by blast
  obtain m' e' where n: "float64 n = Finite (sint n < 0) m' e'" "m' \<noteq> 0"
    using float64_Finite [of n] assms by blast
  have "fdiv (float64 c) (float64 n) = round_ratio ((sint c < 0) \<noteq> (sint n < 0)) m m' (e - e')"
    by (simp add: c n)
  then show ?thesis
    by (cases "round_ratio ((sint c < 0) \<noteq> (sint n < 0)) m m' (e - e')")
       (simp_all add: float_100_def round_ratio_not_NaN)
qed

text \<open>Some values: a conversion that is exact, two that round a tie to the even mantissa,
  the largest \<^verbatim>\<open>int\<close>, a division of zero, the two divisions by zero, and the percentage of
  the counters of \<open>huge_profile\<close>, which is \<open>- 100\<close>.\<close>

lemma float64_values:
  "float64 1 = Finite False 4503599627370496 (- 52)"
  "float64 9007199254740993 = Finite False 4503599627370496 1"
  "float64 9007199254740995 = Finite False 4503599627370498 1"
  "float64 9223372036854775807 = Finite False 4503599627370496 11"
  "fdiv (float64 0) (float64 (- 5)) = Finite True 0 (- 1074)"
  "fdiv (float64 0) (float64 0) = NaN"
  "fdiv (float64 1) (float64 0) = Infinity False"
  "fmul (fdiv (float64 9223372036854775807) (float64 (- 9223372036854775808))) float_100
     = Finite True 7036874417766400 (- 46)"
  by code_simp+

lemma patch_frame_Coverage:
  "patch_frame d d' \<Longrightarrow> Coverage d' = Coverage d \<and> PrevCoverage d' = PrevCoverage d
     \<and> PatchCoverage d' = PatchCoverage d"
  unfolding patch_frame_def
  by (metis CoverageData.select_convs(3,6,10) CoverageData.surjective CoverageData.update_convs(4,5))

lemma patch_coverage_percentages:
  "Coverage (data (patch_coverage fs ps)) = float_zero
     \<and> PrevCoverage (data (patch_coverage fs ps)) = float_zero
     \<and> PatchCoverage (data (patch_coverage fs ps)) = float_zero"
  using patch_frame_Coverage [OF patch_frame_patch_loop [of init_state fs ps]]
  by (simp add: patch_coverage_def init_state_def zero_CoverageData_def)

lemma printUncoveredLines_percentages:
  "Coverage (printUncoveredLines env partially covered d) = Coverage d \<and>
   PrevCoverage (printUncoveredLines env partially covered d) = PrevCoverage d \<and>
   PatchCoverage (printUncoveredLines env partially covered d) = PatchCoverage d"
  by (simp add: printUncoveredLines_eq range_files_fst)

lemma percentages_eq:
  assumes "Coverage d = float_zero" and "PrevCoverage d = float_zero"
  shows "Coverage (percentages d) = (if CoverageData.NumStmt d = 0 then float_zero
            else fmul (fdiv (float64 (CoverageData.CoverCount d))
                            (float64 (CoverageData.NumStmt d))) float_100)"
    and "PatchCoverage (percentages d) = (if PatchNumStmt d = 0 then float_100
            else fmul (fdiv (float64 (PatchCoverCount d)) (float64 (PatchNumStmt d))) float_100)"
    and "PrevCoverage (percentages d) = (if PrevNumStmt d = 0 then float_zero
            else fmul (fdiv (float64 (PrevCoverCount d)) (float64 (PrevNumStmt d))) float_100)"
    and "CoverageData.NumStmt (percentages d) = CoverageData.NumStmt d"
    and "CoverageData.CoverCount (percentages d) = CoverageData.CoverCount d"
    and "PatchNumStmt (percentages d) = PatchNumStmt d"
    and "PatchCoverCount (percentages d) = PatchCoverCount d"
    and "PrevNumStmt (percentages d) = PrevNumStmt d"
    and "PrevCoverCount (percentages d) = PrevCoverCount d"
  using assms by (simp_all add: percentages_def Let_def)

lemma report_percentages:
  fixes env diffFiles coverProfiles prevCoverProfiles
  defines "d \<equiv> fst (computeCoverage env diffFiles coverProfiles prevCoverProfiles)"
  shows "Coverage d = (if CoverageData.NumStmt d = 0 then float_zero
            else fmul (fdiv (float64 (CoverageData.CoverCount d))
                            (float64 (CoverageData.NumStmt d))) float_100)"
    and "PatchCoverage d = (if PatchNumStmt d = 0 then float_100
            else fmul (fdiv (float64 (PatchCoverCount d)) (float64 (PatchNumStmt d))) float_100)"
    and "PrevCoverage d = (if PrevNumStmt d = 0 then float_zero
            else fmul (fdiv (float64 (PrevCoverCount d)) (float64 (PrevNumStmt d))) float_100)"
proof -
  define st where "st = patch_coverage diffFiles coverProfiles"
  define d3 where "d3 = printUncoveredLines env (partiallyCoveredLines st) (coveredLines st)
    (prev_total_coverage prevCoverProfiles (total_coverage coverProfiles (data st)))"
  have res: "d = percentages d3"
    by (simp add: d_def computeCoverage_def Let_def d3_def st_def)
  have zero: "Coverage d3 = float_zero" "PrevCoverage d3 = float_zero"
    using patch_coverage_percentages [of diffFiles coverProfiles]
    by (simp_all add: d3_def st_def printUncoveredLines_percentages total_coverage_eq
          prev_total_coverage_eq)
  show "Coverage d = (if CoverageData.NumStmt d = 0 then float_zero
            else fmul (fdiv (float64 (CoverageData.CoverCount d))
                            (float64 (CoverageData.NumStmt d))) float_100)"
    and "PatchCoverage d = (if PatchNumStmt d = 0 then float_100
            else fmul (fdiv (float64 (PatchCoverCount d)) (float64 (PatchNumStmt d))) float_100)"
    and "PrevCoverage d = (if PrevNumStmt d = 0 then float_zero
            else fmul (fdiv (float64 (PrevCoverCount d)) (float64 (PrevNumStmt d))) float_100)"
    unfolding res by (simp_all only: percentages_eq [OF zero])
qed

text \<open>
  Claim C3, as the code has it. In the report, each percentage is computed in \<^verbatim>\<open>float64\<close>
  arithmetic as \<^verbatim>\<open>float64(coverCount) / float64(numStmt) * 100\<close>, the quotient rounded
  before it is multiplied; \<^verbatim>\<open>Coverage\<close> and \<^verbatim>\<open>PrevCoverage\<close> are left at \<open>0\<close> when the
  denominator is \<open>0\<close>, and \<^verbatim>\<open>PatchCoverage\<close> is \<open>100\<close> when \<^verbatim>\<open>PatchNumStmt\<close> is \<open>0\<close> after the
  corrections of \<^verbatim>\<open>printUncoveredLines\<close>. A division is only made by a counter that is not
  zero, whose conversion to \<^verbatim>\<open>float64\<close> is not a zero either, no percentage is NaN, and
  the error result is nil.
\<close>

theorem percentages_guarded:
  "let d = fst (computeCoverage env diffFiles coverProfiles prevCoverProfiles)
   in Coverage d = (if CoverageData.NumStmt d = 0 then float_zero
                    else fmul (fdiv (float64 (CoverageData.CoverCount d))
                                    (float64 (CoverageData.NumStmt d))) float_100)
    \<and> PatchCoverage d = (if PatchNumStmt d = 0 then float_100
                    else fmul (fdiv (float64 (PatchCoverCount d)) (float64 (PatchNumStmt d)))
                           float_100)
    \<and> PrevCoverage d = (if PrevNumStmt d = 0 then float_zero
                    else fmul (fdiv (float64 (PrevCoverCount d)) (float64 (PrevNumStmt d)))
                           float_100)
    \<and> is_zero (float64 (CoverageData.NumStmt d)) = (CoverageData.NumStmt d = 0)
    \<and> is_zero (float64 (PatchNumStmt d)) = (PatchNumStmt d = 0)
    \<and> is_zero (float64 (PrevNumStmt d)) = (PrevNumStmt d = 0)
    \<and> Coverage d \<noteq> NaN \<and> PatchCoverage d \<noteq> NaN \<and> PrevCoverage d \<noteq> NaN
    \<and> snd (computeCoverage env diffFiles coverProfiles prevCoverProfiles) = None"
proof -
  define d where "d = fst (computeCoverage env diffFiles coverProfiles prevCoverProfiles)"
  note p = report_percentages [of env diffFiles coverProfiles prevCoverProfiles, folded d_def]
  have "Coverage d \<noteq> NaN"
    unfolding p(1) by (simp add: percentage_not_NaN float_zero_def)
  moreover have "float_100 \<noteq> NaN"
    by (simp add: float_100_def)
  then have "PatchCoverage d \<noteq> NaN"
    unfolding p(2) by (simp add: percentage_not_NaN)
  moreover have "PrevCoverage d \<noteq> NaN"
    unfolding p(3) by (simp add: percentage_not_NaN float_zero_def)
  moreover have "snd (computeCoverage env diffFiles coverProfiles prevCoverProfiles) = None"
    by (simp add: computeCoverage_def Let_def)
  ultimately show ?thesis
    unfolding Let_def d_def [symmetric] using p by (simp only: is_zero_float64 simp_thms)
qed

text \<open>
  Claim C3 as stated fails in the last place: with 7 of 100 statements covered the code
  returns \<^verbatim>\<open>7.000000000000001\<close>, the \<^verbatim>\<open>float64\<close> next above 7, while \<open>100 * 7 / 100\<close> is
  exactly 7, also when it is evaluated in \<^verbatim>\<open>float64\<close>.
\<close>

theorem percentage_rounds_quotient:
  "run_env (env_of []) [] seven_of_100_profile
   \<and> CoverageData.CoverCount (fst (computeCoverage (env_of []) [] seven_of_100_profile [])) = 7
   \<and> CoverageData.NumStmt (fst (computeCoverage (env_of []) [] seven_of_100_profile [])) = 100
   \<and> Coverage (fst (computeCoverage (env_of []) [] seven_of_100_profile []))
       = Finite False 7881299347898369 (- 50)
   \<and> float64 7 = Finite False 7881299347898368 (- 50)
   \<and> fdiv (fmul float_100 (float64 7)) (float64 100) = Finite False 7881299347898368 (- 50)"
proof -
  have "run_env (env_of []) [] seven_of_100_profile"
    by (simp add: run_env_def range_visits_def env_of_def patch_defs seven_of_100_profile_def)
  moreover
  have "CoverageData.CoverCount (fst (computeCoverage (env_of []) [] seven_of_100_profile [])) = 7"
    by code_simp
  moreover
  have "CoverageData.NumStmt (fst (computeCoverage (env_of []) [] seven_of_100_profile [])) = 100"
    by code_simp
  moreover
  have "Coverage (fst (computeCoverage (env_of []) [] seven_of_100_profile []))
       = Finite False 7881299347898369 (- 50)"
    by code_simp
  moreover have "float64 7 = Finite False 7881299347898368 (- 50)"
    by code_simp
  moreover
  have "fdiv (fmul float_100 (float64 7)) (float64 100) = Finite False 7881299347898368 (- 50)"
    by code_simp
  ultimately show ?thesis
    by blast
qed

subsection \<open>The line classifier\<close>

lemma HasPrefix_iff: "HasPrefix s pre \<longleftrightarrow> prefix pre s"
proof
  assume "HasPrefix s pre"
  then have "take (length pre) s = pre"
    by (simp add: HasPrefix_def)
  then show "prefix pre s"
    by (metis take_is_prefix)
next
  assume "prefix pre s"
  then show "HasPrefix s pre"
    by (auto simp: HasPrefix_def prefix_def)
qed

lemma HasSuffix_iff: "HasSuffix s suf \<longleftrightarrow> suffix suf s"
proof
  assume "HasSuffix s suf"
  then have "drop (length s - length suf) s = suf"
    by (simp add: HasSuffix_def)
  then show "suffix suf s"
    by (metis suffix_drop)
next
  assume "suffix suf s"
  then show "HasSuffix s suf"
    by (auto simp: HasSuffix_def suffix_def)
qed

lemma Contains_iff: "Contains s sub \<longleftrightarrow> sublist sub s"
  by (induction s) (simp_all add: HasPrefix_iff sublist_Cons_right)

lemma space_runes_nonempty: "w \<in> set space_runes \<Longrightarrow> w \<noteq> []"
  by (auto simp: space_runes_def)

lemma find_SomeD: "find P xs = Some x \<Longrightarrow> x \<in> set xs \<and> P x"
  by (induction xs) (auto split: if_splits)

lemma leading_space_0: "leading_space s = 0 \<longleftrightarrow> \<not> (\<exists>w\<in>set space_runes. prefix w s)"
proof (cases "find (HasPrefix s) space_runes")
  case None
  then have "leading_space s = 0"
    by (simp add: leading_space_def)
  moreover have "\<not> (\<exists>w\<in>set space_runes. prefix w s)"
    using None by (auto simp: find_None_iff HasPrefix_iff)
  ultimately show ?thesis
    by simp
next
  case (Some w)
  then have "w \<in> set space_runes \<and> prefix w s"
    by (auto dest: find_SomeD simp: HasPrefix_iff)
  then show ?thesis
    using Some space_runes_nonempty [of w] by (auto simp: leading_space_def)
qed

lemma trailing_space_0: "trailing_space s = 0 \<longleftrightarrow> \<not> (\<exists>w\<in>set space_runes. suffix w s)"
proof (cases "find (HasSuffix s) space_runes")
  case None
  then have "trailing_space s = 0"
    by (simp add: trailing_space_def)
  moreover have "\<not> (\<exists>w\<in>set space_runes. suffix w s)"
    using None by (auto simp: find_None_iff HasSuffix_iff)
  ultimately show ?thesis
    by simp
next
  case (Some w)
  then have "w \<in> set space_runes \<and> suffix w s"
    by (auto dest: find_SomeD simp: HasSuffix_iff)
  then show ?thesis
    using Some space_runes_nonempty [of w] by (auto simp: trailing_space_def)
qed

lemma leading_space_rune:
  assumes "leading_space s \<noteq> 0"
  shows "\<exists>w\<in>set space_runes. s = w @ drop (leading_space s) s"
proof -
  from assms obtain w where w: "find (HasPrefix s) space_runes = Some w"
    by (auto simp: leading_space_def split: option.splits)
  then have "w \<in> set space_runes" and "prefix w s"
    by (auto dest: find_SomeD simp: HasPrefix_iff)
  moreover have "leading_space s = length w"
    using w by (simp add: leading_space_def)
  ultimately show ?thesis
    by (auto simp: prefix_def)
qed

lemma trailing_space_rune:
  assumes "trailing_space s \<noteq> 0"
  shows "\<exists>w\<in>set space_runes. s = take (length s - trailing_space s) s @ w"
proof -
  from assms obtain w where w: "find (HasSuffix s) space_runes = Some w"
    by (auto simp: trailing_space_def split: option.splits)
  then have "w \<in> set space_runes" and "suffix w s"
    by (auto dest: find_SomeD simp: HasSuffix_iff)
  moreover have "trailing_space s = length w"
    using w by (simp add: trailing_space_def)
  ultimately show ?thesis
    by (auto simp: suffix_def)
qed

lemma white_space_Nil: "white_space []"
  unfolding white_space_def by (rule exI [of _ "[]"]) simp

lemma white_space_rune_append:
  assumes "w \<in> set space_runes" and "white_space a"
  shows "white_space (w @ a)"
proof -
  from assms(2) obtain ws where "set ws \<subseteq> set space_runes" and "a = concat ws"
    by (auto simp: white_space_def)
  with assms(1) have "set (w # ws) \<subseteq> set space_runes \<and> w @ a = concat (w # ws)"
    by simp
  then show ?thesis
    unfolding white_space_def by blast
qed

lemma white_space_append_rune:
  assumes "w \<in> set space_runes" and "white_space a"
  shows "white_space (a @ w)"
proof -
  from assms(2) obtain ws where "set ws \<subseteq> set space_runes" and "a = concat ws"
    by (auto simp: white_space_def)
  with assms(1) have "set (ws @ [w]) \<subseteq> set space_runes \<and> a @ w = concat (ws @ [w])"
    by simp
  then show ?thesis
    unfolding white_space_def by blast
qed

lemma TrimLeftSpace_spec:
  "\<exists>a. white_space a \<and> s = a @ TrimLeftSpace s \<and> leading_space (TrimLeftSpace s) = 0"
proof (induction s rule: TrimLeftSpace.induct)
  case (1 s)
  show ?case
  proof (cases "leading_space s = 0")
    case True
    then show ?thesis
      using white_space_Nil by (subst (1 2) TrimLeftSpace.simps) auto
  next
    case False
    from "1.IH" [OF False] obtain a where a: "white_space a"
      "drop (leading_space s) s = a @ TrimLeftSpace (drop (leading_space s) s)"
      "leading_space (TrimLeftSpace (drop (leading_space s) s)) = 0"
      by blast
    from leading_space_rune [OF False] obtain w where w: "w \<in> set space_runes"
      "s = w @ drop (leading_space s) s"
      by blast
    have eq: "TrimLeftSpace s = TrimLeftSpace (drop (leading_space s) s)"
      using False by (subst TrimLeftSpace.simps) simp
    have "s = (w @ a) @ TrimLeftSpace s"
      using w(2) a(2) eq by (metis append.assoc)
    then show ?thesis
      using white_space_rune_append [OF w(1) a(1)] a(3) eq by metis
  qed
qed

lemma TrimRightSpace_spec:
  "\<exists>b. white_space b \<and> s = TrimRightSpace s @ b \<and> trailing_space (TrimRightSpace s) = 0"
proof (induction s rule: TrimRightSpace.induct)
  case (1 s)
  show ?case
  proof (cases "trailing_space s = 0")
    case True
    then show ?thesis
      using white_space_Nil by (subst (1 2) TrimRightSpace.simps) auto
  next
    case False
    let ?r = "take (length s - trailing_space s) s"
    from "1.IH" [OF False] obtain b where b: "white_space b"
      "?r = TrimRightSpace ?r @ b" "trailing_space (TrimRightSpace ?r) = 0"
      by blast
    from trailing_space_rune [OF False] obtain w where w: "w \<in> set space_runes" "s = ?r @ w"
      by blast
    have eq: "TrimRightSpace s = TrimRightSpace ?r"
      using False by (subst TrimRightSpace.simps) simp
    have "s = TrimRightSpace s @ (b @ w)"
      using w(2) b(2) eq by (metis append.assoc)
    then show ?thesis
      using white_space_append_rune [OF w(1) b(1)] b(3) eq by metis
  qed
qed

lemma TrimSpace_spec:
  "(\<exists>a b. white_space a \<and> white_space b \<and> l = a @ TrimSpace l @ b)
   \<and> \<not> (\<exists>w\<in>set space_runes. prefix w (TrimSpace l) \<or> suffix w (TrimSpace l))"
proof -
  obtain a where a: "white_space a" "l = a @ TrimLeftSpace l" "leading_space (TrimLeftSpace l) = 0"
    using TrimLeftSpace_spec [of l] by blast
  obtain b where b: "white_space b" "TrimLeftSpace l = TrimSpace l @ b"
    "trailing_space (TrimSpace l) = 0"
    using TrimRightSpace_spec [of "TrimLeftSpace l"] unfolding TrimSpace_def by blast
  have "l = a @ TrimSpace l @ b"
    using a(2) b(2) by simp
  moreover have "\<not> prefix w (TrimSpace l)" if "w \<in> set space_runes" for w
  proof
    assume "prefix w (TrimSpace l)"
    then have "prefix w (TrimLeftSpace l)"
      using b(2) by (metis prefix_prefix)
    with that a(3) show False
      by (auto simp: leading_space_0)
  qed
  moreover have "\<not> suffix w (TrimSpace l)" if "w \<in> set space_runes" for w
    using that b(3) by (auto simp: trailing_space_0)
  ultimately show ?thesis
    using a(1) b(1) by blast
qed

text \<open>
  Claim C8, as the code has it. \<^verbatim>\<open>isInvalidLine\<close> is true exactly when the line, with its
  surrounding white space trimmed, is empty, starts with \<^verbatim>\<open>//\<close>, starts with \<^verbatim>\<open>/*\<close>, ends
  with \<^verbatim>\<open>*/\<close> or contains the tag marker \<^verbatim>\<open>`json:\<close>. The trimmed line is the line without
  a leading and a trailing run of white-space runes, and neither starts nor ends with such
  a rune. The classifier is a total function to \<open>bool\<close>.
\<close>

theorem isInvalidLine_iff:
  "(isInvalidLine l \<longleftrightarrow>
      TrimSpace l = [] \<or> prefix ''//'' (TrimSpace l) \<or> prefix ''/*'' (TrimSpace l)
      \<or> suffix ''*/'' (TrimSpace l) \<or> sublist ''`json:'' (TrimSpace l))
   \<and> (\<exists>a b. white_space a \<and> white_space b \<and> l = a @ TrimSpace l @ b)
   \<and> \<not> (\<exists>w\<in>set space_runes. prefix w (TrimSpace l) \<or> suffix w (TrimSpace l))"
proof -
  have "isInvalidLine l \<longleftrightarrow>
      TrimSpace l = [] \<or> prefix ''//'' (TrimSpace l) \<or> prefix ''/*'' (TrimSpace l)
      \<or> suffix ''*/'' (TrimSpace l) \<or> sublist ''`json:'' (TrimSpace l)"
    unfolding isInvalidLine_def Let_def HasPrefix_iff HasSuffix_iff Contains_iff by blast
  then show ?thesis
    using TrimSpace_spec [of l] by blast
qed

text \<open>
  Claim C8 as stated fails for the markers that the code does not test: a field with an
  \<^verbatim>\<open>xml\<close> or a \<^verbatim>\<open>mapstructure\<close> tag, a line that opens a block comment after code and a line
  that closes one before code are not invalid.
\<close>

theorem other_markers_are_valid:
  "sublist ''`xml:'' xml_tag_line \<and> \<not> isInvalidLine xml_tag_line
   \<and> sublist ''`mapstructure:'' mapstructure_tag_line \<and> \<not> isInvalidLine mapstructure_tag_line
   \<and> sublist ''/*'' ''x := 1 /* start of a comment''
   \<and> \<not> isInvalidLine ''x := 1 /* start of a comment''
   \<and> sublist ''*/'' ''end of a comment */ x := 1''
   \<and> \<not> isInvalidLine ''end of a comment */ x := 1''
   \<and> \<not> isInvalidLine ''x /* c */ y''"
  by code_simp

subsection \<open>One credit for a block and a diff file\<close>

lemma find_append:
  "find P (xs @ ys) = (case find P xs of None \<Rightarrow> find P ys | Some x \<Rightarrow> Some x)"
  by (induction xs) simp_all

lemma scan_lines_eq_find:
  "scan_lines p b pos k ls st =
     map_option (\<lambda>(n, s). credit p b n s st)
       (find (\<lambda>(n, s). in_block b n)
          (map (\<lambda>(i, line). (pos + of_nat i, remove_newlines (Line line)))
             (filter (\<lambda>(i, line). Op line = OpAdd) (enumerate k ls))))"
  by (induction ls arbitrary: k) (simp_all add: Let_def)

lemma scan_fragments_eq_find:
  "scan_fragments p b ts st =
     map_option (\<lambda>(n, s). credit p b n s st)
       (find (\<lambda>(n, s). in_block b n) (concat (map add_lines ts)))"
proof (induction ts)
  case Nil
  show ?case by simp
next
  case (Cons t ts)
  show ?case
    by (simp add: Cons.IH scan_lines_eq_find [of p b "NewPosition t" 0 "Lines t" st]
          add_lines_def [symmetric] find_append split: option.splits)
qed

lemma blockloop_Cons:
  "blockloop p f (b # bs) st =
     blockloop p f bs (case first_hit f b of None \<Rightarrow> st | Some (n, s) \<Rightarrow> credit p b n s st)"
  by (simp add: scan_fragments_eq_find first_hit_def split: option.splits)

lemma credit_counters:
  "PatchNumStmt (data (credit p b n s st)) = PatchNumStmt (data st) + ProfileBlock.NumStmt b"
  "PatchCoverCount (data (credit p b n s st)) =
     PatchCoverCount (data st) + (if 0 <s Count b then ProfileBlock.NumStmt b else 0)"
  by (simp_all add: credit_def Let_def)

lemma blockloop_counters:
  "PatchNumStmt (data (blockloop p f bs st)) =
     PatchNumStmt (data st)
       + sum_list (map ProfileBlock.NumStmt (filter (\<lambda>b. first_hit f b \<noteq> None) bs))"
  "PatchCoverCount (data (blockloop p f bs st)) =
     PatchCoverCount (data st)
       + sum_list (map ProfileBlock.NumStmt
           (filter (\<lambda>b. 0 <s Count b) (filter (\<lambda>b. first_hit f b \<noteq> None) bs)))"
proof (induction bs arbitrary: st)
  case Nil
  {
    case 1
    show ?case by simp
  next
    case 2
    show ?case by simp
  }
next
  case (Cons b bs)
  {
    case 1
    show ?case
      unfolding blockloop_Cons Cons.IH(1)
      by (cases "first_hit f b") (auto simp: credit_counters)
  next
    case 2
    show ?case
      unfolding blockloop_Cons Cons.IH(2)
      by (cases "first_hit f b") (auto simp: credit_counters)
  }
qed

lemma file_loop_Cons:
  "file_loop p (f # fs) st =
     file_loop p fs (if suffix (NewName f) (FileName p) then blockloop p f (Blocks p) st else st)"
  by (simp add: HasSuffix_iff)

lemma file_loop_counters:
  "PatchNumStmt (data (file_loop p fs st)) =
     PatchNumStmt (data st) + sum_list (map ProfileBlock.NumStmt (credited fs p))"
  "PatchCoverCount (data (file_loop p fs st)) =
     PatchCoverCount (data st)
       + sum_list (map ProfileBlock.NumStmt (filter (\<lambda>b. 0 <s Count b) (credited fs p)))"
proof (induction fs arbitrary: st)
  case Nil
  {
    case 1
    show ?case by (simp add: credited_def)
  next
    case 2
    show ?case by (simp add: credited_def)
  }
next
  case (Cons f fs)
  have c: "credited (f # fs) p =
      (if suffix (NewName f) (FileName p) then filter (\<lambda>b. first_hit f b \<noteq> None) (Blocks p)
       else []) @ credited fs p"
    by (simp add: credited_def)
  {
    case 1
    show ?case
      unfolding file_loop_Cons Cons.IH(1) c by (simp add: blockloop_counters)
  next
    case 2
    show ?case
      unfolding file_loop_Cons Cons.IH(2) c by (simp add: blockloop_counters)
  }
qed

lemma patch_loop_counters:
  "PatchNumStmt (data (patch_loop fs ps st)) =
     PatchNumStmt (data st)
       + sum_list (map ProfileBlock.NumStmt (concat (map (credited fs) ps)))"
  "PatchCoverCount (data (patch_loop fs ps st)) =
     PatchCoverCount (data st)
       + sum_list (map ProfileBlock.NumStmt
           (filter (\<lambda>b. 0 <s Count b) (concat (map (credited fs) ps))))"
proof (induction ps arbitrary: st)
  case Nil
  {
    case 1
    show ?case by simp
  next
    case 2
    show ?case by simp
  }
next
  case (Cons p ps)
  {
    case 1
    show ?case
      by (simp add: Cons.IH(1) file_loop_counters)
  next
    case 2
    show ?case
      by (simp add: Cons.IH(2) file_loop_counters)
  }
qed

text \<open>
  Claim C5, as the code has it. In the block loop for a profile and a diff file, a block
  changes the state by one credit, made for the first Add line of the diff file (in the
  order of hunks and lines) whose number is in the block's range, or not at all when there
  is no such line: further Add lines in the range add nothing. So after the patch loops
  \<^verbatim>\<open>PatchNumStmt\<close> is the sum of \<^verbatim>\<open>NumStmt\<close> over the credited blocks, one entry for each
  block and each diff file whose new name is a suffix of the profile's file name and which
  has an Add line in the block, and \<^verbatim>\<open>PatchCoverCount\<close> is the sum over those of them
  with a positive count.
\<close>

theorem block_credited_once_per_diff_file:
  "blockloop p f (b # bs) st =
     blockloop p f bs (case first_hit f b of None \<Rightarrow> st | Some (n, s) \<Rightarrow> credit p b n s st)
   \<and> PatchNumStmt (data (patch_coverage diffFiles coverProfiles)) =
       sum_list (map ProfileBlock.NumStmt (concat (map (credited diffFiles) coverProfiles)))
   \<and> PatchCoverCount (data (patch_coverage diffFiles coverProfiles)) =
       sum_list (map ProfileBlock.NumStmt
         (filter (\<lambda>b. 0 <s Count b) (concat (map (credited diffFiles) coverProfiles))))"
  by (simp only: blockloop_Cons patch_coverage_def patch_loop_counters)
     (simp add: init_state_def zero_CoverageData_def)

text \<open>
  Claim C5 as stated fails when two diff files match one profile: the only block of the
  profile of \<^verbatim>\<open>m/b/a.go\<close> holds two statements and is credited once for \<^verbatim>\<open>a.go\<close> and once
  for \<^verbatim>\<open>b/a.go\<close>, so the patch counters are 4, twice the statements of the whole profile.
\<close>

theorem block_credited_twice:
  "run_env (env_of []) two_diffs nested_profile
   \<and> PatchNumStmt (fst (computeCoverage (env_of []) two_diffs nested_profile [])) = 4
   \<and> PatchCoverCount (fst (computeCoverage (env_of []) two_diffs nested_profile [])) = 4
   \<and> CoverageData.NumStmt (fst (computeCoverage (env_of []) two_diffs nested_profile [])) = 2
   \<and> map ProfileBlock.NumStmt (concat (map Blocks nested_profile)) = [2]"
proof -
  have "run_env (env_of []) two_diffs nested_profile"
    by (simp add: run_env_def range_visits_def env_of_def patch_defs two_diffs_def
          nested_profile_def)
  moreover have "PatchNumStmt (fst (computeCoverage (env_of []) two_diffs nested_profile [])) = 4"
    by code_simp
  moreover have "PatchCoverCount (fst (computeCoverage (env_of []) two_diffs nested_profile [])) = 4"
    by code_simp
  moreover have "CoverageData.NumStmt (fst (computeCoverage (env_of []) two_diffs nested_profile [])) = 2"
    by code_simp
  moreover have "map ProfileBlock.NumStmt (concat (map Blocks nested_profile)) = [2]"
    by (simp add: nested_profile_def)
  ultimately show ?thesis
    by blast
qed

subsection \<open>Line numbers of added lines\<close>

lemma credit_entry:
  "last (lines_at ((if 0 <s Count b then coveredLines else partiallyCoveredLines)
           (credit p b n s st)) (FileName p)) =
     \<lparr>LineNum = n, Line.NumStmt = ProfileBlock.NumStmt b, Line.CoverCount = Count b,
      LineString = s\<rparr>"
  by (simp add: credit_def Let_def append_line_def lines_at_def)

lemma enumerate_eq_map_nth: "enumerate 0 xs = map (\<lambda>i. (i, xs ! i)) [0..<length xs]"
  by (rule nth_equalityI) (simp_all add: nth_enumerate_eq)

lemma map_filter_map_eq_concat:
  "map g (filter P (map h js)) = concat (map (\<lambda>i. if P (h i) then [g (h i)] else []) js)"
  by (induction js) simp_all

lemma add_lines_positions:
  "add_lines t =
     [(NewPosition t + of_nat i, remove_newlines (Line (Lines t ! i))).
        i \<leftarrow> [0..<length (Lines t)], Op (Lines t ! i) = OpAdd]"
  unfolding add_lines_def enumerate_eq_map_nth map_filter_map_eq_concat
  by (simp cong: if_cong)

text \<open>
  Claim C4. In the block loop for a profile and a diff file, a block is tested against the
  Add lines of every hunk of the diff file, each with the number \<^verbatim>\<open>NewPosition\<close> plus \<open>i\<close>
  (in Go's wrapping \<^verbatim>\<open>int\<close> arithmetic), where \<open>i\<close> is the position of the line in the list
  of all lines of its hunk, context and deleted lines counted: the state changes by the
  credit for the first such line whose number is in the block's range, and not at all when
  there is none. The number stored in the \<^verbatim>\<open>Line\<close> entry of a credit is the number that was
  tested.
\<close>

theorem add_line_number:
  "blockloop p f (b # bs) st =
     blockloop p f bs
       (case find (\<lambda>(n, s). in_block b n)
               (concat (map (\<lambda>t. [(NewPosition t + of_nat i, remove_newlines (Line (Lines t ! i))).
                                     i \<leftarrow> [0..<length (Lines t)], Op (Lines t ! i) = OpAdd])
                          (TextFragments f)))
        of None \<Rightarrow> st | Some (n, s) \<Rightarrow> credit p b n s st)
   \<and> LineNum (last (lines_at
         ((if 0 <s Count b then coveredLines else partiallyCoveredLines) (credit p b n s st))
         (FileName p))) = n"
  unfolding blockloop_Cons first_hit_def add_lines_positions credit_entry by simp

theorem add_line_number_witness:
  "NewPosition context_then_add = 10
   \<and> map Op (Lines context_then_add) = [OpContext, OpAdd]
   \<and> blockloop profile_11 context_then_add_file [block_11] init_state
       = credit profile_11 block_11 11 ''y := 2'' init_state
   \<and> lines_at (partiallyCoveredLines
         (blockloop profile_11 context_then_add_file [block_11] init_state)) ''m/a.go''
       = [\<lparr>LineNum = 11, Line.NumStmt = 1, Line.CoverCount = 0, LineString = ''y := 2''\<rparr>]"
proof -
  have "blockloop profile_11 context_then_add_file [block_11] init_state
       = credit profile_11 block_11 11 ''y := 2'' init_state"
    unfolding add_line_number [THEN conjunct1]
    by (simp add: context_then_add_file_def context_then_add_def block_11_def in_block_def
          remove_newlines_def newline_def word_sle_eq upt_rec)
  then show ?thesis
    by (simp add: context_then_add_def credit_def block_11_def profile_11_def init_state_def
          append_line_def lines_at_def word_sless_alt)
qed

subsection \<open>File matching\<close>





subsection \<open>Invariants of the patch loops\<close>

text \<open>The patch loops change the state by credits only. A property \<open>P\<close> that every credit
  keeps holds after the loops, and a measure \<open>\<mu>\<close> that a credit for the block \<open>b\<close> raises
  by \<open>w b\<close> at most is raised by the loops by the sum of \<open>w\<close> over the blocks at most, once
  for every diff file.\<close>

lemma scan_fragments_credit:
  "scan_fragments p b ts st = Some st' \<Longrightarrow> \<exists>n s. st' = credit p b n s st"
  by (auto simp: scan_fragments_eq_find)

lemma blockloop_invariant:
  fixes \<mu> :: "PatchState \<Rightarrow> int"
  assumes step: "\<And>b n s st. b \<in> set bs \<Longrightarrow> P st \<Longrightarrow>
      P (credit p b n s st) \<and> \<mu> (credit p b n s st) \<le> \<mu> st + w b"
    and w: "\<forall>b\<in>set bs. 0 \<le> w b"
    and P: "P st"
  shows "P (blockloop p f bs st) \<and> \<mu> (blockloop p f bs st) \<le> \<mu> st + sum_list (map w bs)"
  using assms
proof (induction bs arbitrary: st)
  case Nil
  then show ?case by simp
next
  case (Cons b bs)
  let ?st1 = "case scan_fragments p b (TextFragments f) st of Some st' \<Rightarrow> st' | None \<Rightarrow> st"
  have st1: "P ?st1 \<and> \<mu> ?st1 \<le> \<mu> st + w b"
  proof (cases "scan_fragments p b (TextFragments f) st")
    case None
    with Cons.prems(2,3) show ?thesis by simp
  next
    case (Some st')
    then obtain n s where "st' = credit p b n s st"
      using scan_fragments_credit by blast
    with Some Cons.prems(1) [of b st n s] Cons.prems(3) show ?thesis by simp
  qed
  have "P (blockloop p f bs ?st1) \<and> \<mu> (blockloop p f bs ?st1) \<le> \<mu> ?st1 + sum_list (map w bs)"
    using Cons.prems(1,2) st1 by (intro Cons.IH) auto
  with st1 show ?case by simp
qed

lemma file_loop_invariant:
  fixes \<mu> :: "PatchState \<Rightarrow> int"
  assumes step: "\<And>b n s st. b \<in> set (Blocks p) \<Longrightarrow> P st \<Longrightarrow>
      P (credit p b n s st) \<and> \<mu> (credit p b n s st) \<le> \<mu> st + w b"
    and w: "\<forall>b\<in>set (Blocks p). 0 \<le> w b"
    and P: "P st"
  shows "P (file_loop p fs st) \<and>
     \<mu> (file_loop p fs st) \<le> \<mu> st + int (length fs) * sum_list (map w (Blocks p))"
  using P
proof (induction fs arbitrary: st)
  case Nil
  then show ?case by simp
next
  case (Cons f fs)
  let ?st1 = "if \<not> HasSuffix (FileName p) (NewName f) then st else blockloop p f (Blocks p) st"
  have nonneg: "0 \<le> sum_list (map w (Blocks p))"
    using w by (intro sum_list_nonneg) auto
  have "P (blockloop p f (Blocks p) st) \<and>
      \<mu> (blockloop p f (Blocks p) st) \<le> \<mu> st + sum_list (map w (Blocks p))"
    using step w Cons.prems by (rule blockloop_invariant)
  with Cons.prems nonneg have st1: "P ?st1 \<and> \<mu> ?st1 \<le> \<mu> st + sum_list (map w (Blocks p))"
    by simp
  then have "P (file_loop p fs ?st1) \<and>
      \<mu> (file_loop p fs ?st1) \<le> \<mu> ?st1 + int (length fs) * sum_list (map w (Blocks p))"
    by (intro Cons.IH) simp
  with st1 show ?case
    by (simp add: algebra_simps)
qed

lemma patch_loop_invariant:
  fixes \<mu> :: "PatchState \<Rightarrow> int"
  assumes step: "\<And>p b n s st. p \<in> set ps \<Longrightarrow> b \<in> set (Blocks p) \<Longrightarrow> P st \<Longrightarrow>
      P (credit p b n s st) \<and> \<mu> (credit p b n s st) \<le> \<mu> st + w b"
    and w: "\<forall>p\<in>set ps. \<forall>b\<in>set (Blocks p). 0 \<le> w b"
    and P: "P st"
  shows "P (patch_loop fs ps st) \<and>
     \<mu> (patch_loop fs ps st) \<le> \<mu> st + int (length fs) * sum_list (map w (concat (map Blocks ps)))"
  using assms
proof (induction ps arbitrary: st)
  case Nil
  then show ?case by simp
next
  case (Cons p ps)
  have st1: "P (file_loop p fs st) \<and>
      \<mu> (file_loop p fs st) \<le> \<mu> st + int (length fs) * sum_list (map w (Blocks p))"
    using Cons.prems by (intro file_loop_invariant) auto
  have "P (patch_loop fs ps (file_loop p fs st)) \<and>
      \<mu> (patch_loop fs ps (file_loop p fs st))
        \<le> \<mu> (file_loop p fs st) + int (length fs) * sum_list (map w (concat (map Blocks ps)))"
    using Cons.prems(1,2) st1 by (intro Cons.IH) auto
  with st1 show ?case
    by (simp add: algebra_simps)
qed

subsection \<open>Candidate lines are never covered\<close>

lemma lines_at_append_line:
  "lines_at (append_line m k e) k' = (if k' = k then lines_at m k @ [e] else lines_at m k')"
  by (simp add: append_line_def lines_at_def)

lemma counts_split_credit: "counts_split st \<Longrightarrow> counts_split (credit p b n s st)"
  by (auto simp: counts_split_def credit_def Let_def lines_at_append_line)

lemma counts_split_patch_coverage: "counts_split (patch_coverage fs ps)"
proof -
  have "counts_split init_state"
    by (simp add: counts_split_def init_state_def lines_at_def)
  then have "counts_split (patch_loop fs ps init_state) \<and>
      (\<lambda>_. 0) (patch_loop fs ps init_state)
        \<le> (\<lambda>_. 0) init_state + int (length fs) * sum_list (map (\<lambda>_. 0) (concat (map Blocks ps)))"
    by (intro patch_loop_invariant) (simp_all add: counts_split_credit)
  then show ?thesis
    by (simp add: patch_coverage_def)
qed

lemma isLineCovered_count:
  "isLineCovered l cs \<Longrightarrow> \<exists>c\<in>set cs. Line.CoverCount c = Line.CoverCount l"
  by (induction cs) (auto split: if_splits)

lemma counts_split_not_covered:
  assumes "counts_split st" and "l \<in> set (lines_at (partiallyCoveredLines st) k)"
  shows "\<not> isLineCovered l (lines_at (coveredLines st) k')"
proof
  assume "isLineCovered l (lines_at (coveredLines st) k')"
  then obtain c where "c \<in> set (lines_at (coveredLines st) k')"
    "Line.CoverCount c = Line.CoverCount l"
    using isLineCovered_count by blast
  with assms show False
    unfolding counts_split_def by metis
qed

lemma invalid_covered_stmts_0:
  assumes "counts_split st"
  shows "invalid_covered_stmts (coveredLines st) k (lines_at (partiallyCoveredLines st) k) = 0"
proof -
  have "filter (\<lambda>l. isInvalidLine (LineString l) \<and> coveredLines st k \<noteq> None
          \<and> isLineCovered l (lines_at (coveredLines st) k))
        (lines_at (partiallyCoveredLines st) k) = []"
    using counts_split_not_covered [OF assms] by (auto simp: filter_empty_conv)
  then show ?thesis
    by (simp add: invalid_covered_stmts_def)
qed

lemma range_files_PatchCoverCount:
  assumes "counts_split st"
  shows "PatchCoverCount (fst (range_files ks (partiallyCoveredLines st) (coveredLines st) (d, h)))
    = PatchCoverCount d"
  by (simp add: range_files_fst invalid_covered_stmts_0 [OF assms])

lemma percentages_counters:
  "CoverageData.NumStmt (percentages d) = CoverageData.NumStmt d"
  "CoverageData.CoverCount (percentages d) = CoverageData.CoverCount d"
  "PatchNumStmt (percentages d) = PatchNumStmt d"
  "PatchCoverCount (percentages d) = PatchCoverCount d"
  "PrevNumStmt (percentages d) = PrevNumStmt d"
  "PrevCoverCount (percentages d) = PrevCoverCount d"
  "HasPrevCoverage (percentages d) = HasPrevCoverage d"
  "Uncovered_lines (percentages d) = Uncovered_lines d"
  by (simp_all add: percentages_def Let_def)

text \<open>
  Claim C10. After the patch loops, every line of the covered map has a positive execution
  count and every candidate line has not; so for a candidate line \<^verbatim>\<open>isLineCovered\<close> is false
  against the covered lines of any file, the flag \<^verbatim>\<open>uncovered\<close> is true for it, and
  \<^verbatim>\<open>printUncoveredLines\<close> never subtracts from \<^verbatim>\<open>PatchCoverCount\<close>: the report has the
  \<^verbatim>\<open>PatchCoverCount\<close> that the patch loops computed, in every environment.
\<close>

theorem candidates_are_uncovered:
  "(\<forall>k. \<forall>c\<in>set (lines_at (coveredLines (patch_coverage diffFiles coverProfiles)) k).
       0 <s Line.CoverCount c)
   \<and> (\<forall>k. \<forall>l\<in>set (lines_at (partiallyCoveredLines (patch_coverage diffFiles coverProfiles)) k).
       \<not> 0 <s Line.CoverCount l
       \<and> \<not> isLineCovered l (lines_at (coveredLines (patch_coverage diffFiles coverProfiles)) k))
   \<and> PatchCoverCount (fst (computeCoverage env diffFiles coverProfiles prevCoverProfiles))
       = PatchCoverCount (data (patch_coverage diffFiles coverProfiles))"
proof -
  note inv = counts_split_patch_coverage [of diffFiles coverProfiles]
  have "PatchCoverCount (fst (computeCoverage env diffFiles coverProfiles prevCoverProfiles))
       = PatchCoverCount (data (patch_coverage diffFiles coverProfiles))"
    by (simp add: computeCoverage_def Let_def percentages_counters printUncoveredLines_eq
          range_files_PatchCoverCount [OF inv] total_coverage_eq prev_total_coverage_eq)
  then show ?thesis
    using inv counts_split_not_covered [OF inv] by (auto simp: counts_split_def)
qed

theorem candidates_are_uncovered_witness:
  "lines_at (coveredLines (patch_coverage line_10_diff overlapping_profile)) ''m/a.go''
     = [\<lparr>LineNum = 10, Line.NumStmt = 2, Line.CoverCount = 1, LineString = ''x := 1''\<rparr>]
   \<and> lines_at (partiallyCoveredLines (patch_coverage line_10_diff overlapping_profile)) ''m/a.go''
     = [\<lparr>LineNum = 10, Line.NumStmt = 1, Line.CoverCount = 0, LineString = ''x := 1''\<rparr>]
   \<and> \<not> isLineCovered
         \<lparr>LineNum = 10, Line.NumStmt = 1, Line.CoverCount = 0, LineString = ''x := 1''\<rparr>
         [\<lparr>LineNum = 10, Line.NumStmt = 2, Line.CoverCount = 1, LineString = ''x := 1''\<rparr>]
   \<and> PatchCoverCount (fst (computeCoverage (env_of [''m/a.go'']) line_10_diff overlapping_profile []))
     = 2"
proof -
  have c: "lines_at (coveredLines (patch_coverage line_10_diff overlapping_profile)) ''m/a.go''
     = [\<lparr>LineNum = 10, Line.NumStmt = 2, Line.CoverCount = 1, LineString = ''x := 1''\<rparr>]"
    by (simp add: patch_defs line_10_diff_def overlapping_profile_def)
  have p: "lines_at (partiallyCoveredLines (patch_coverage line_10_diff overlapping_profile)) ''m/a.go''
     = [\<lparr>LineNum = 10, Line.NumStmt = 1, Line.CoverCount = 0, LineString = ''x := 1''\<rparr>]"
    by (simp add: patch_defs line_10_diff_def overlapping_profile_def)
  have n: "PatchCoverCount (data (patch_coverage line_10_diff overlapping_profile)) = 2"
    by (simp add: patch_defs line_10_diff_def overlapping_profile_def zero_CoverageData_def)
  note inst = candidates_are_uncovered [of line_10_diff overlapping_profile "env_of [''m/a.go'']" "[]"]
  from inst have "\<forall>l\<in>set (lines_at (partiallyCoveredLines (patch_coverage line_10_diff overlapping_profile)) ''m/a.go'').
       \<not> isLineCovered l (lines_at (coveredLines (patch_coverage line_10_diff overlapping_profile)) ''m/a.go'')"
    by blast
  then have "\<not> isLineCovered
         \<lparr>LineNum = 10, Line.NumStmt = 1, Line.CoverCount = 0, LineString = ''x := 1''\<rparr>
         [\<lparr>LineNum = 10, Line.NumStmt = 2, Line.CoverCount = 1, LineString = ''x := 1''\<rparr>]"
    unfolding c p by simp
  moreover from inst n
  have "PatchCoverCount (fst (computeCoverage (env_of [''m/a.go'']) line_10_diff overlapping_profile [])) = 2"
    by simp
  ultimately show ?thesis
    using c p by blast
qed

subsection \<open>Two runs on the same arguments\<close>

lemma write_lines_Some: "write_lines (Some w) ls = Some (w @ concat (map line_text ls))"
  by (induction ls arbitrary: w) (simp_all add: WriteString_def line_text_def)

lemma write_section_Some: "write_section (Some w) k ls = Some (w @ section_text k ls)"
  by (simp add: write_section_def section_text_def WriteString_def write_lines_Some Let_def)

lemma classify_lines_snd:
  "snd (classify_lines (covered k \<noteq> None) (lines_at covered k) (lines_at partially k) (d, []))
     = uncovered_lines_of partially covered k"
  by (auto simp: classify_lines_eq uncovered_lines_of_def intro!: filter_cong)

lemma range_files_snd_Some:
  "snd (range_files ks partially covered (d, Some w)) =
     Some (w @ concat (map (\<lambda>k. section_text k (uncovered_lines_of partially covered k)) ks))"
proof (induction ks arbitrary: d w)
  case Nil
  show ?case by simp
next
  case (Cons k ks)
  obtain d' ls where c: "classify_lines (covered k \<noteq> None) (lines_at covered k)
      (lines_at partially k) (d, []) = (d', ls)"
    by (cases "classify_lines (covered k \<noteq> None) (lines_at covered k)
      (lines_at partially k) (d, [])")
  then have "ls = uncovered_lines_of partially covered k"
    using classify_lines_snd [of covered k partially d] by simp
  then show ?case
    by (simp add: c Cons.IH write_section_Some del: not_None_eq)
qed

lemma sum_list_range_visits:
  fixes g :: "string \<Rightarrow> 'a::comm_monoid_add"
  assumes "range_visits ks m"
  shows "sum_list (map g ks) = sum g (dom m)"
  using assms by (simp add: range_visits_def sum_list_distinct_conv_sum_set)

lemma range_files_fst_order:
  assumes "range_visits ks1 partially" and "range_visits ks2 partially"
  shows "fst (range_files ks1 partially covered (d, h1)) =
         fst (range_files ks2 partially covered (d, h2))"
  by (simp only: range_files_fst sum_list_range_visits [OF assms(1)]
        sum_list_range_visits [OF assms(2)])

lemma computeCoverage_eq:
  "computeCoverage env fs ps prev =
     ((percentages (fst (range_files (range_order env)
          (partiallyCoveredLines (patch_coverage fs ps)) (coveredLines (patch_coverage fs ps))
          (prev_total_coverage prev (total_coverage ps (data (patch_coverage fs ps))), None))))
       \<lparr>Uncovered_lines :=
          ReadFile env (snd (range_files (range_order env)
             (partiallyCoveredLines (patch_coverage fs ps)) (coveredLines (patch_coverage fs ps))
             (prev_total_coverage prev (total_coverage ps (data (patch_coverage fs ps))),
              if create_fails env then None else Some [])))\<rparr>,
      None)"
  by (simp only: computeCoverage_def Let_def printUncoveredLines_eq percentages_Uncovered_lines)

text \<open>
  Claim C6, as the code has it. Two runs on the same arguments can differ in the order in
  which \<^verbatim>\<open>range partiallyCoveredLines\<close> visits the file names and in the fate of the side
  file. All counters, percentages and the error are the same in both runs. When the side
  file can be created, \<^verbatim>\<open>Uncovered_lines\<close> is the sequence of the sections of the files in
  the order of the visit; so the whole report is the same in two runs that visit the file
  names in the same order and can both create the file.
\<close>

theorem same_report_up_to_order:
  assumes "run_env env1 diffFiles coverProfiles" and "run_env env2 diffFiles coverProfiles"
  shows "(fst (computeCoverage env1 diffFiles coverProfiles prevCoverProfiles))\<lparr>Uncovered_lines := []\<rparr>
       = (fst (computeCoverage env2 diffFiles coverProfiles prevCoverProfiles))\<lparr>Uncovered_lines := []\<rparr>
     \<and> snd (computeCoverage env1 diffFiles coverProfiles prevCoverProfiles)
       = snd (computeCoverage env2 diffFiles coverProfiles prevCoverProfiles)
     \<and> (\<not> create_fails env1 \<longrightarrow>
          Uncovered_lines (fst (computeCoverage env1 diffFiles coverProfiles prevCoverProfiles))
          = concat (map (\<lambda>k. section_text k
               (uncovered_lines_of (partiallyCoveredLines (patch_coverage diffFiles coverProfiles))
                  (coveredLines (patch_coverage diffFiles coverProfiles)) k))
              (range_order env1)))
     \<and> (range_order env1 = range_order env2 \<and> \<not> create_fails env1 \<and> \<not> create_fails env2 \<longrightarrow>
          computeCoverage env1 diffFiles coverProfiles prevCoverProfiles
          = computeCoverage env2 diffFiles coverProfiles prevCoverProfiles)"
proof -
  let ?P = "partiallyCoveredLines (patch_coverage diffFiles coverProfiles)"
  let ?C = "coveredLines (patch_coverage diffFiles coverProfiles)"
  let ?d = "prev_total_coverage prevCoverProfiles
    (total_coverage coverProfiles (data (patch_coverage diffFiles coverProfiles)))"
  have v: "range_visits (range_order env1) ?P" "range_visits (range_order env2) ?P"
    using assms by (simp_all add: run_env_def)
  have same: "fst (range_files (range_order env1) ?P ?C (?d, None))
      = fst (range_files (range_order env2) ?P ?C (?d, None))"
    using v by (rule range_files_fst_order)
  have 1: "(fst (computeCoverage env1 diffFiles coverProfiles prevCoverProfiles))\<lparr>Uncovered_lines := []\<rparr>
       = (fst (computeCoverage env2 diffFiles coverProfiles prevCoverProfiles))\<lparr>Uncovered_lines := []\<rparr>"
    unfolding computeCoverage_eq fst_conv same by simp
  have 2: "snd (computeCoverage env1 diffFiles coverProfiles prevCoverProfiles)
       = snd (computeCoverage env2 diffFiles coverProfiles prevCoverProfiles)"
    by (simp add: computeCoverage_def Let_def)
  have 3: "Uncovered_lines (fst (computeCoverage env1 diffFiles coverProfiles prevCoverProfiles))
          = concat (map (\<lambda>k. section_text k (uncovered_lines_of ?P ?C k)) (range_order env1))"
    if "\<not> create_fails env1"
    unfolding computeCoverage_eq fst_conv using that
    by (simp add: range_files_snd_Some ReadFile_def)
  have 4: "computeCoverage env1 diffFiles coverProfiles prevCoverProfiles
          = computeCoverage env2 diffFiles coverProfiles prevCoverProfiles"
    if "range_order env1 = range_order env2" "\<not> create_fails env1" "\<not> create_fails env2"
    unfolding computeCoverage_eq using that
    by (simp add: range_files_snd_Some ReadFile_def)
  from 1 2 3 4 show ?thesis
    by blast
qed

lemma two_files_keys:
  "dom (partiallyCoveredLines (patch_coverage two_files_diff two_files_profile))
     = {''m/a.go'', ''m/b.go''}"
  by (simp add: patch_defs two_files_diff_def two_files_profile_def) auto

lemma two_files_run_env:
  "run_env (env_of [''m/a.go'', ''m/b.go'']) two_files_diff two_files_profile"
  "run_env (env_of [''m/b.go'', ''m/a.go'']) two_files_diff two_files_profile"
  by (auto simp: run_env_def range_visits_def env_of_def two_files_keys)

theorem same_report_up_to_order_witness:
  "run_env (env_of [''m/a.go'', ''m/b.go'']) two_files_diff two_files_profile
   \<and> run_env (env_of [''m/b.go'', ''m/a.go'']) two_files_diff two_files_profile
   \<and> (fst (computeCoverage (env_of [''m/a.go'', ''m/b.go'']) two_files_diff two_files_profile []))
        \<lparr>Uncovered_lines := []\<rparr>
     = (fst (computeCoverage (env_of [''m/b.go'', ''m/a.go'']) two_files_diff two_files_profile []))
        \<lparr>Uncovered_lines := []\<rparr>
   \<and> PatchNumStmt (fst (computeCoverage (env_of [''m/b.go'', ''m/a.go'']) two_files_diff
        two_files_profile [])) = 2"
proof -
  have "PatchNumStmt (fst (computeCoverage (env_of [''m/b.go'', ''m/a.go'']) two_files_diff
        two_files_profile [])) = 2"
    by code_simp
  then show ?thesis
    using two_files_run_env
      same_report_up_to_order [OF two_files_run_env, of "[]"]
    by blast
qed

text \<open>
  Claim C6 as stated fails: Go does not fix the order in which a map is ranged over. With
  a candidate line in each of two files, the run that visits \<^verbatim>\<open>m/a.go\<close> first and the run
  that visits \<^verbatim>\<open>m/b.go\<close> first return different \<^verbatim>\<open>Uncovered_lines\<close>.
\<close>

theorem report_depends_on_range_order:
  "run_env (env_of [''m/a.go'', ''m/b.go'']) two_files_diff two_files_profile
   \<and> run_env (env_of [''m/b.go'', ''m/a.go'']) two_files_diff two_files_profile
   \<and> Uncovered_lines (fst (computeCoverage (env_of [''m/a.go'', ''m/b.go'']) two_files_diff
        two_files_profile []))
     \<noteq> Uncovered_lines (fst (computeCoverage (env_of [''m/b.go'', ''m/a.go'']) two_files_diff
        two_files_profile []))"
proof -
  have "Uncovered_lines (fst (computeCoverage (env_of [''m/a.go'', ''m/b.go'']) two_files_diff
        two_files_profile []))
     \<noteq> Uncovered_lines (fst (computeCoverage (env_of [''m/b.go'', ''m/a.go'']) two_files_diff
        two_files_profile []))"
    by code_simp
  then show ?thesis
    using two_files_run_env by blast
qed

subsection \<open>Covered statements are at most the statements\<close>

lemma of_int_sum_list_sint:
  "(of_int (\<Sum>x\<leftarrow>xs. sint (f x)) :: go_int) = sum_list (map f xs)"
  by (induction xs) simp_all

lemma sint_of_int_small:
  assumes "0 \<le> X" and "X < 2 ^ 63"
  shows "sint (of_int X :: go_int) = X"
proof -
  have "signed_take_bit 63 X = X"
    using assms by (intro signed_take_bit_int_eq_self) simp_all
  then show ?thesis
    by (simp add: sint_sbintrunc')
qed

lemma sle_of_int:
  assumes "0 \<le> X'" and "X' \<le> X" and "X < 2 ^ 63"
  shows "(of_int X' :: go_int) \<le>s of_int X"
  using assms by (simp add: word_sle_eq sint_of_int_small)

lemma sum_list_filter_le:
  fixes f :: "'a \<Rightarrow> int"
  assumes "\<forall>x\<in>set xs. 0 \<le> f x"
  shows "(\<Sum>x\<leftarrow>filter P xs. f x) \<le> (\<Sum>x\<leftarrow>xs. f x)"
  using assms by (induction xs) auto

lemma sum_list_map_nonneg:
  fixes f :: "'a \<Rightarrow> int"
  assumes "\<forall>x\<in>set xs. 0 \<le> f x"
  shows "0 \<le> (\<Sum>x\<leftarrow>xs. f x)"
  using assms by (intro sum_list_nonneg) auto

lemma covered_blocks_sle:
  assumes "\<forall>b\<in>set bs. 0 \<le>s ProfileBlock.NumStmt b"
    and "(\<Sum>b\<leftarrow>bs. sint (ProfileBlock.NumStmt b)) < 2 ^ 63"
  shows "sum_list (map ProfileBlock.NumStmt (filter (\<lambda>b. 0 <s Count b) bs))
           \<le>s sum_list (map ProfileBlock.NumStmt bs)"
proof -
  have nonneg: "\<forall>b\<in>set bs. 0 \<le> sint (ProfileBlock.NumStmt b)"
    using assms(1) by (simp add: word_sle_eq)
  then have "\<forall>b\<in>set (filter (\<lambda>b. 0 <s Count b) bs). 0 \<le> sint (ProfileBlock.NumStmt b)"
    by simp
  then have "0 \<le> (\<Sum>b\<leftarrow>filter (\<lambda>b. 0 <s Count b) bs. sint (ProfileBlock.NumStmt b))"
    by (rule sum_list_map_nonneg)
  moreover have "(\<Sum>b\<leftarrow>filter (\<lambda>b. 0 <s Count b) bs. sint (ProfileBlock.NumStmt b))
      \<le> (\<Sum>b\<leftarrow>bs. sint (ProfileBlock.NumStmt b))"
    using nonneg by (rule sum_list_filter_le)
  ultimately have "(of_int (\<Sum>b\<leftarrow>filter (\<lambda>b. 0 <s Count b) bs. sint (ProfileBlock.NumStmt b)) :: go_int)
      \<le>s of_int (\<Sum>b\<leftarrow>bs. sint (ProfileBlock.NumStmt b))"
    using assms(2) by (intro sle_of_int)
  then show ?thesis
    by (simp only: of_int_sum_list_sint)
qed

lemma dom_append_line: "dom (append_line m k e) = insert k (dom m)"
  by (simp add: append_line_def)

lemma line_stmts_append_line:
  assumes "finite (dom m)"
  shows "line_stmts (append_line m k e) = line_stmts m + sint (Line.NumStmt e)"
proof (cases "k \<in> dom m")
  case True
  have "line_stmts (append_line m k e) =
      (\<Sum>l\<leftarrow>lines_at m k @ [e]. sint (Line.NumStmt l))
      + (\<Sum>k'\<in>dom m - {k}. \<Sum>l\<leftarrow>lines_at m k'. sint (Line.NumStmt l))"
    unfolding line_stmts_def dom_append_line insert_absorb [OF True]
    by (subst sum.remove [OF assms True]) (simp add: lines_at_append_line)
  moreover have "line_stmts m =
      (\<Sum>l\<leftarrow>lines_at m k. sint (Line.NumStmt l))
      + (\<Sum>k'\<in>dom m - {k}. \<Sum>l\<leftarrow>lines_at m k'. sint (Line.NumStmt l))"
    unfolding line_stmts_def by (rule sum.remove [OF assms True])
  ultimately show ?thesis by simp
next
  case False
  then have "m k = None"
    by (simp add: domIff)
  then have "lines_at m k = []"
    by (simp add: lines_at_def)
  moreover have "(\<Sum>k'\<in>dom m. \<Sum>l\<leftarrow>lines_at (append_line m k e) k'. sint (Line.NumStmt l))
      = (\<Sum>k'\<in>dom m. \<Sum>l\<leftarrow>lines_at m k'. sint (Line.NumStmt l))"
    using False by (intro sum.cong) (auto simp: lines_at_append_line)
  ultimately show ?thesis
    using False assms unfolding line_stmts_def dom_append_line
    by (simp add: lines_at_append_line)
qed

lemma patch_inv_credit:
  assumes "0 \<le> sint (ProfileBlock.NumStmt b)" and "patch_inv st"
  shows "patch_inv (credit p b n s st)"
    and "line_stmts (coveredLines (credit p b n s st))
           + line_stmts (partiallyCoveredLines (credit p b n s st))
         = line_stmts (coveredLines st) + line_stmts (partiallyCoveredLines st)
           + sint (ProfileBlock.NumStmt b)"
  using assms
  by (auto simp: patch_inv_def credit_def Let_def dom_append_line line_stmts_append_line
      lines_at_append_line)

lemma patch_inv_init: "patch_inv init_state"
  by (simp add: patch_inv_def init_state_def zero_CoverageData_def line_stmts_def lines_at_def)

lemma patch_inv_patch_coverage:
  assumes "\<forall>p\<in>set ps. \<forall>b\<in>set (Blocks p). 0 \<le>s ProfileBlock.NumStmt b"
  shows "patch_inv (patch_coverage fs ps) \<and>
     line_stmts (coveredLines (patch_coverage fs ps))
       + line_stmts (partiallyCoveredLines (patch_coverage fs ps))
     \<le> int (length fs) * stmt_total ps"
proof -
  let ?\<mu> = "\<lambda>st. line_stmts (coveredLines st) + line_stmts (partiallyCoveredLines st)"
  let ?w = "\<lambda>b. sint (ProfileBlock.NumStmt b)"
  have nonneg: "\<forall>p\<in>set ps. \<forall>b\<in>set (Blocks p). 0 \<le> ?w b"
    using assms by (simp add: word_sle_eq)
  have "patch_inv (patch_loop fs ps init_state) \<and>
     ?\<mu> (patch_loop fs ps init_state)
       \<le> ?\<mu> init_state + int (length fs) * sum_list (map ?w (concat (map Blocks ps)))"
  proof (rule patch_loop_invariant [where P = patch_inv and \<mu> = ?\<mu> and w = ?w])
    fix p b n s st
    assume "p \<in> set ps" "b \<in> set (Blocks p)" "patch_inv st"
    with nonneg have "0 \<le> ?w b" "patch_inv st"
      by auto
    from patch_inv_credit [OF this]
    show "patch_inv (credit p b n s st) \<and> ?\<mu> (credit p b n s st) \<le> ?\<mu> st + ?w b"
      by simp
  qed (use nonneg patch_inv_init in auto)
  moreover have "?\<mu> init_state = 0"
    by (simp add: init_state_def line_stmts_def)
  ultimately show ?thesis
    by (simp add: patch_coverage_def stmt_total_def)
qed

text \<open>What the invalid candidate lines take out of \<^verbatim>\<open>PatchNumStmt\<close>.\<close>

lemma invalid_stmts_sum:
  assumes "range_visits ks m"
  shows "sum_list (map (\<lambda>k. invalid_stmts (lines_at m k)) ks) =
     of_int (\<Sum>k\<in>dom m. \<Sum>l\<leftarrow>filter (\<lambda>l. isInvalidLine (LineString l)) (lines_at m k).
        sint (Line.NumStmt l))"
proof -
  have "(of_int (\<Sum>k\<in>dom m. \<Sum>l\<leftarrow>filter (\<lambda>l. isInvalidLine (LineString l)) (lines_at m k).
        sint (Line.NumStmt l)) :: go_int)
      = (\<Sum>k\<in>dom m. of_int (\<Sum>l\<leftarrow>filter (\<lambda>l. isInvalidLine (LineString l)) (lines_at m k).
        sint (Line.NumStmt l)))"
    by (rule of_int_sum)
  also have "\<dots> = (\<Sum>k\<in>dom m. invalid_stmts (lines_at m k))"
    by (simp only: of_int_sum_list_sint invalid_stmts_def)
  finally show ?thesis
    by (simp only: sum_list_range_visits [OF assms])
qed

lemma invalid_line_stmts_bounds:
  assumes "\<forall>k. \<forall>l\<in>set (lines_at m k). 0 \<le> sint (Line.NumStmt l)"
  shows "0 \<le> (\<Sum>k\<in>dom m. \<Sum>l\<leftarrow>filter (\<lambda>l. isInvalidLine (LineString l)) (lines_at m k).
        sint (Line.NumStmt l))"
    and "(\<Sum>k\<in>dom m. \<Sum>l\<leftarrow>filter (\<lambda>l. isInvalidLine (LineString l)) (lines_at m k).
        sint (Line.NumStmt l)) \<le> line_stmts m"
proof -
  show "0 \<le> (\<Sum>k\<in>dom m. \<Sum>l\<leftarrow>filter (\<lambda>l. isInvalidLine (LineString l)) (lines_at m k).
        sint (Line.NumStmt l))"
    using assms by (intro sum_nonneg sum_list_map_nonneg) auto
  show "(\<Sum>k\<in>dom m. \<Sum>l\<leftarrow>filter (\<lambda>l. isInvalidLine (LineString l)) (lines_at m k).
        sint (Line.NumStmt l)) \<le> line_stmts m"
    unfolding line_stmts_def using assms by (intro sum_mono sum_list_filter_le) auto
qed

lemma patch_coverage_totals:
  "CoverageData.NumStmt (data (patch_coverage fs ps)) = 0"
  "CoverageData.CoverCount (data (patch_coverage fs ps)) = 0"
  "PrevNumStmt (data (patch_coverage fs ps)) = 0"
  "PrevCoverCount (data (patch_coverage fs ps)) = 0"
proof -
  have "data (patch_coverage fs ps) =
      zero_CoverageData\<lparr>PatchNumStmt := PatchNumStmt (data (patch_coverage fs ps)),
        PatchCoverCount := PatchCoverCount (data (patch_coverage fs ps))\<rparr>"
    using patch_frame_patch_loop [of init_state fs ps]
    by (simp add: patch_frame_def patch_coverage_def init_state_def)
  then have "CoverageData.NumStmt (data (patch_coverage fs ps)) = 0
      \<and> CoverageData.CoverCount (data (patch_coverage fs ps)) = 0
      \<and> PrevNumStmt (data (patch_coverage fs ps)) = 0
      \<and> PrevCoverCount (data (patch_coverage fs ps)) = 0"
    by (metis CoverageData.select_convs(1,2,8,9) CoverageData.update_convs(4,5)
        CoverageData.surjective zero_CoverageData_def)
  then show "CoverageData.NumStmt (data (patch_coverage fs ps)) = 0"
    "CoverageData.CoverCount (data (patch_coverage fs ps)) = 0"
    "PrevNumStmt (data (patch_coverage fs ps)) = 0"
    "PrevCoverCount (data (patch_coverage fs ps)) = 0"
    by simp_all
qed

lemma report_counters:
  fixes env fs ps prev
  defines "st \<equiv> patch_coverage fs ps"
  defines "d \<equiv> fst (computeCoverage env fs ps prev)"
  shows "CoverageData.NumStmt d = sum_list (map ProfileBlock.NumStmt (concat (map Blocks ps)))"
    and "CoverageData.CoverCount d =
      sum_list (map ProfileBlock.NumStmt (filter (\<lambda>b. 0 <s Count b) (concat (map Blocks ps))))"
    and "PrevNumStmt d = sum_list (map ProfileBlock.NumStmt (concat (map Blocks prev)))"
    and "PrevCoverCount d =
      sum_list (map ProfileBlock.NumStmt (filter (\<lambda>b. 0 <s Count b) (concat (map Blocks prev))))"
    and "PatchNumStmt d = PatchNumStmt (data st)
      - sum_list (map (\<lambda>k. invalid_stmts (lines_at (partiallyCoveredLines st) k)) (range_order env))"
    and "PatchCoverCount d = PatchCoverCount (data st)"
  unfolding d_def st_def computeCoverage_eq fst_conv
  by (simp_all add: percentages_counters range_files_fst total_coverage_eq prev_total_coverage_eq
        patch_coverage_totals invalid_covered_stmts_0 [OF counts_split_patch_coverage])

text \<open>
  Claim C2, as the code has it. Go's \<^verbatim>\<open>int\<close> wraps around, and the counters are sums of the
  statement counts of the profile's blocks. When no block has a negative statement count
  (the profile parser accepts none) and the statements of the current profile, taken once
  for every diff file, and those of the previous profile stay below \<open>2^63\<close>, the report of
  every run satisfies \<open>CoverCount \<le> NumStmt\<close>, \<open>PatchCoverCount \<le> PatchNumStmt\<close> and
  \<open>PrevCoverCount \<le> PrevNumStmt\<close>, after the subtractions of \<^verbatim>\<open>printUncoveredLines\<close>.
\<close>

theorem covered_at_most_statements:
  assumes nonneg: "\<forall>p\<in>set coverProfiles. \<forall>b\<in>set (Blocks p). 0 \<le>s ProfileBlock.NumStmt b"
    and nonneg_prev: "\<forall>p\<in>set prevCoverProfiles. \<forall>b\<in>set (Blocks p). 0 \<le>s ProfileBlock.NumStmt b"
    and bound: "int (max 1 (length diffFiles)) * stmt_total coverProfiles < 2 ^ 63"
    and bound_prev: "stmt_total prevCoverProfiles < 2 ^ 63"
    and env: "run_env env diffFiles coverProfiles"
  shows "CoverageData.CoverCount (fst (computeCoverage env diffFiles coverProfiles prevCoverProfiles))
          \<le>s CoverageData.NumStmt (fst (computeCoverage env diffFiles coverProfiles prevCoverProfiles))
     \<and> PatchCoverCount (fst (computeCoverage env diffFiles coverProfiles prevCoverProfiles))
          \<le>s PatchNumStmt (fst (computeCoverage env diffFiles coverProfiles prevCoverProfiles))
     \<and> PrevCoverCount (fst (computeCoverage env diffFiles coverProfiles prevCoverProfiles))
          \<le>s PrevNumStmt (fst (computeCoverage env diffFiles coverProfiles prevCoverProfiles))"
proof -
  let ?st = "patch_coverage diffFiles coverProfiles"
  let ?C = "line_stmts (coveredLines ?st)"
  let ?U = "line_stmts (partiallyCoveredLines ?st)"
  let ?S = "\<Sum>k\<in>dom (partiallyCoveredLines ?st).
      \<Sum>l\<leftarrow>filter (\<lambda>l. isInvalidLine (LineString l)) (lines_at (partiallyCoveredLines ?st) k).
        sint (Line.NumStmt l)"
  have total_nonneg: "0 \<le> stmt_total coverProfiles"
    unfolding stmt_total_def using nonneg by (intro sum_list_map_nonneg) (auto simp: word_sle_eq)
  have "1 * stmt_total coverProfiles \<le> int (max 1 (length diffFiles)) * stmt_total coverProfiles"
    using total_nonneg by (intro mult_right_mono) simp_all
  with bound have total_small: "stmt_total coverProfiles < 2 ^ 63"
    by simp
  have "int (length diffFiles) * stmt_total coverProfiles
      \<le> int (max 1 (length diffFiles)) * stmt_total coverProfiles"
    using total_nonneg by (intro mult_right_mono) simp_all
  with bound have patch_small: "int (length diffFiles) * stmt_total coverProfiles < 2 ^ 63"
    by simp

  have 1: "sum_list (map ProfileBlock.NumStmt (filter (\<lambda>b. 0 <s Count b) (concat (map Blocks coverProfiles))))
      \<le>s sum_list (map ProfileBlock.NumStmt (concat (map Blocks coverProfiles)))"
    using nonneg total_small by (intro covered_blocks_sle) (auto simp: stmt_total_def)
  have 3: "sum_list (map ProfileBlock.NumStmt (filter (\<lambda>b. 0 <s Count b) (concat (map Blocks prevCoverProfiles))))
      \<le>s sum_list (map ProfileBlock.NumStmt (concat (map Blocks prevCoverProfiles)))"
    using nonneg_prev bound_prev by (intro covered_blocks_sle) (auto simp: stmt_total_def)

  from patch_inv_patch_coverage [OF nonneg, of diffFiles]
  have inv: "patch_inv ?st" and budget: "?C + ?U \<le> int (length diffFiles) * stmt_total coverProfiles"
    by simp_all
  have lines_nonneg:
    "\<forall>k. \<forall>l\<in>set (lines_at (coveredLines ?st) k). 0 \<le> sint (Line.NumStmt l)"
    "\<forall>k. \<forall>l\<in>set (lines_at (partiallyCoveredLines ?st) k). 0 \<le> sint (Line.NumStmt l)"
    using inv by (simp_all add: patch_inv_def)
  have C_nonneg: "0 \<le> ?C"
    unfolding line_stmts_def using lines_nonneg(1)
    by (intro sum_nonneg sum_list_map_nonneg) auto
  have S: "0 \<le> ?S" "?S \<le> ?U"
    using invalid_line_stmts_bounds [OF lines_nonneg(2)] by simp_all
  have visits: "range_visits (range_order env) (partiallyCoveredLines ?st)"
    using env by (simp add: run_env_def)
  have "PatchNumStmt (fst (computeCoverage env diffFiles coverProfiles prevCoverProfiles))
      = of_int (?C + ?U) - of_int ?S"
    using inv by (simp only: report_counters(5) invalid_stmts_sum [OF visits] patch_inv_def)
  then have num: "PatchNumStmt (fst (computeCoverage env diffFiles coverProfiles prevCoverProfiles))
      = of_int (?C + ?U - ?S)"
    by simp
  have cov: "PatchCoverCount (fst (computeCoverage env diffFiles coverProfiles prevCoverProfiles))
      = of_int ?C"
    using inv by (simp only: report_counters(6) patch_inv_def)
  have 2: "(of_int ?C :: go_int) \<le>s of_int (?C + ?U - ?S)"
    using C_nonneg S budget patch_small by (intro sle_of_int) simp_all
  show ?thesis
    unfolding num cov using 1 2 3 by (simp only: report_counters(1-4) simp_thms)
qed

theorem covered_at_most_statements_witness:
  "run_env (env_of [''m/a.go'']) line_10_diff overlapping_profile
   \<and> int (max 1 (length line_10_diff)) * stmt_total overlapping_profile < 2 ^ 63
   \<and> CoverageData.CoverCount (fst (computeCoverage (env_of [''m/a.go'']) line_10_diff overlapping_profile []))
        \<le>s CoverageData.NumStmt (fst (computeCoverage (env_of [''m/a.go'']) line_10_diff overlapping_profile []))
   \<and> PatchCoverCount (fst (computeCoverage (env_of [''m/a.go'']) line_10_diff overlapping_profile []))
        \<le>s PatchNumStmt (fst (computeCoverage (env_of [''m/a.go'']) line_10_diff overlapping_profile []))
   \<and> PatchNumStmt (fst (computeCoverage (env_of [''m/a.go'']) line_10_diff overlapping_profile [])) = 3
   \<and> PatchCoverCount (fst (computeCoverage (env_of [''m/a.go'']) line_10_diff overlapping_profile [])) = 2"
proof -
  have nonneg: "\<forall>p\<in>set overlapping_profile. \<forall>b\<in>set (Blocks p). 0 \<le>s ProfileBlock.NumStmt b"
    by (simp add: overlapping_profile_def word_sle_eq)
  have nonneg_prev: "\<forall>p\<in>set []. \<forall>b\<in>set (Blocks p). 0 \<le>s ProfileBlock.NumStmt b"
    by simp
  have bound: "int (max 1 (length line_10_diff)) * stmt_total overlapping_profile < 2 ^ 63"
    by (simp add: stmt_total_def overlapping_profile_def line_10_diff_def)
  have bound_prev: "stmt_total [] < 2 ^ 63"
    by (simp add: stmt_total_def)
  have env: "run_env (env_of [''m/a.go'']) line_10_diff overlapping_profile"
    by (simp add: run_env_def range_visits_def env_of_def patch_defs line_10_diff_def
          overlapping_profile_def)
  have "PatchNumStmt (fst (computeCoverage (env_of [''m/a.go'']) line_10_diff overlapping_profile [])) = 3"
    by code_simp
  moreover
  have "PatchCoverCount (fst (computeCoverage (env_of [''m/a.go'']) line_10_diff overlapping_profile [])) = 2"
    by code_simp
  ultimately show ?thesis
    using covered_at_most_statements [OF nonneg nonneg_prev bound bound_prev env] bound env
    by blast
qed

text \<open>
  Claim C2 as stated fails where the sums wrap around: with the two blocks of
  \<open>huge_profile\<close> and an empty patch, \<^verbatim>\<open>CoverCount\<close> is \<open>2^63 - 1\<close> and \<^verbatim>\<open>NumStmt\<close> is
  \<open>- 2^63\<close>.
\<close>

theorem counters_wrap_around:
  "run_env (env_of []) [] huge_profile
   \<and> map ProfileBlock.NumStmt (concat (map Blocks huge_profile)) = [9223372036854775807, 1]
   \<and> 0 \<le>s (9223372036854775807 :: go_int) \<and> 0 \<le>s (1 :: go_int)
   \<and> sint (CoverageData.CoverCount (fst (computeCoverage (env_of []) [] huge_profile [])))
       = 9223372036854775807
   \<and> sint (CoverageData.NumStmt (fst (computeCoverage (env_of []) [] huge_profile [])))
       = - 9223372036854775808
   \<and> \<not> CoverageData.CoverCount (fst (computeCoverage (env_of []) [] huge_profile []))
        \<le>s CoverageData.NumStmt (fst (computeCoverage (env_of []) [] huge_profile []))"
proof -
  have env: "run_env (env_of []) [] huge_profile"
    by (simp add: run_env_def range_visits_def env_of_def patch_defs huge_profile_def)
  have blocks: "map ProfileBlock.NumStmt (concat (map Blocks huge_profile))
       = [9223372036854775807, 1]"
    "0 \<le>s (9223372036854775807 :: go_int)" "0 \<le>s (1 :: go_int)"
    by (simp_all add: huge_profile_def word_sle_eq)
  have c: "CoverageData.CoverCount (fst (computeCoverage (env_of []) [] huge_profile []))
       = 9223372036854775807"
    by (simp add: report_counters huge_profile_def word_sless_alt)
  have n: "CoverageData.NumStmt (fst (computeCoverage (env_of []) [] huge_profile []))
       = 9223372036854775808"
    by (simp add: report_counters huge_profile_def)
  show ?thesis
    unfolding c n using env blocks by (simp add: word_sle_eq)
qed

end
